theory Spec2Isabelle
  imports Complex_Main "HOL-Library.AList"
begin

text \<open>
  The file \<open>src/index.js\<close> holds two programs, one after the other: an earlier worker
  (its first 87 lines) and the Express server that replaced it. This development models
  the server: its normalizer \<open>extractVideoId\<close>, \<open>formatTime\<close>, \<open>fetchTranscript\<close>,
  the handlers of its routes and the order of its middleware. The libraries that the
  server configures and calls, the cache and the rate limiter, are not part of the
  sources and are modelled from the spec. The upstream library is a reply that the
  model takes as given.
\<close>

section \<open>Regular expressions of \<open>extractVideoId\<close>\<close>

text \<open>
  The four patterns of \<open>extractVideoId\<close> (server part of \<open>src/index.js\<close>) use literal
  text, optional non-capturing groups, one capturing group, a greedy character-class
  repetition, a counted class repetition and the two anchors. The matcher below is a
  backtracking matcher in the order of the JavaScript engine: every construct returns its
  successes by priority (greedy first), and \<open>String.prototype.match\<close> takes the first
  success at the leftmost start position. A match state is the index reached, the input
  that is left, and the text of group 1 (\<open>None\<close> while the group has not taken part).
  Strings are lists of \<open>char\<close>; the patterns only test code units for equality and
  ASCII ranges.
\<close>

datatype regex =
    Lit string
  | Opt regex
  | Seq regex regex
  | Plus "char \<Rightarrow> bool"
  | Rep nat "char \<Rightarrow> bool"
  | Cap regex
  | Bol
  | Eol

type_synonym mstate = "nat \<times> string \<times> string option"

fun strip :: "string \<Rightarrow> string \<Rightarrow> string option" where
  "strip [] s = Some s"
| "strip (c # cs) [] = None"
| "strip (c # cs) (d # ds) = (if c = d then strip cs ds else None)"

fun rx_match :: "regex \<Rightarrow> mstate \<Rightarrow> mstate list" where
  "rx_match (Lit l) (i, s, g) =
     (case strip l s of Some s' \<Rightarrow> [(i + length l, s', g)] | None \<Rightarrow> [])"
| "rx_match (Opt r) st = rx_match r st @ [st]"
| "rx_match (Seq r1 r2) st = concat (map (rx_match r2) (rx_match r1 st))"
| "rx_match (Plus P) (i, s, g) =
     map (\<lambda>n. (i + n, drop n s, g)) (rev [1..<Suc (length (takeWhile P s))])"
| "rx_match (Rep n P) (i, s, g) =
     (if n \<le> length s \<and> list_all P (take n s) then [(i + n, drop n s, g)] else [])"
| "rx_match (Cap r) (i, s, g) =
     map (\<lambda>(j, s', _). (j, s', Some (take (j - i) s))) (rx_match r (i, s, g))"
| "rx_match Bol (i, s, g) = (if i = 0 then [(i, s, g)] else [])"
| "rx_match Eol (i, s, g) = (if s = [] then [(i, s, g)] else [])"

text \<open>
  \<open>url.match(pattern)\<close> for a pattern without the global flag: the start positions are
  tried from the left, the end of the string included; the result is \<open>None\<close> for
  \<open>null\<close> and otherwise \<open>Some\<close> of element 1 of the match array.
\<close>

fun rx_search :: "regex \<Rightarrow> nat \<Rightarrow> string \<Rightarrow> string option option" where
  "rx_search r i [] =
     (case rx_match r (i, [], None) of [] \<Rightarrow> None | st # _ \<Rightarrow> Some (snd (snd st)))"
| "rx_search r i (c # s) =
     (case rx_match r (i, c # s, None) of
        [] \<Rightarrow> rx_search r (Suc i) s
      | st # _ \<Rightarrow> Some (snd (snd st)))"

definition js_match :: "string \<Rightarrow> regex \<Rightarrow> string option option" where
  "js_match url pattern = rx_search pattern 0 url"

definition in_range :: "char \<Rightarrow> char \<Rightarrow> char \<Rightarrow> bool" where
  "in_range lo hi c = ((of_char lo :: nat) \<le> of_char c \<and> (of_char c :: nat) \<le> of_char hi)"

text \<open>The class \<open>[a-zA-Z0-9_-]\<close>.\<close>

definition id_char :: "char \<Rightarrow> bool" where
  "id_char c = (in_range CHR ''a'' CHR ''z'' c \<or> in_range CHR ''A'' CHR ''Z'' c \<or>
                in_range CHR ''0'' CHR ''9'' c \<or> c = CHR ''_'' \<or> c = CHR ''-'')"

text \<open>\<open>(?:https?:\/\/)?(?:www\.)?\<close>, the common start of the three URL patterns.\<close>

definition scheme_www :: "regex \<Rightarrow> regex" where
  "scheme_www r =
     Seq (Opt (Seq (Lit ''http'') (Seq (Opt (Lit ''s'')) (Lit ''://''))))
         (Seq (Opt (Lit ''www.'')) r)"

definition patterns :: "regex list" where
  "patterns =
    [ scheme_www (Seq (Lit ''youtube.com/watch?v='') (Cap (Plus (\<lambda>c. c \<noteq> CHR ''&'')))),
      scheme_www (Seq (Lit ''youtube.com/embed/'') (Cap (Plus (\<lambda>c. c \<noteq> CHR ''?'')))),
      scheme_www (Seq (Lit ''youtu.be/'') (Cap (Plus (\<lambda>c. c \<noteq> CHR ''?'')))),
      Seq Bol (Seq (Cap (Rep 11 id_char)) Eol) ]"

datatype js_error = Error string

fun message :: "js_error \<Rightarrow> string" where
  "message (Error m) = m"

section \<open>The Identifier Normalizer: \<open>extractVideoId\<close>\<close>

text \<open>The loop \<open>for (const pattern of patterns)\<close>: the first pattern that matches returns.\<close>

fun first_match :: "regex list \<Rightarrow> string \<Rightarrow> string option option" where
  "first_match [] url = None"
| "first_match (pattern # ps) url =
     (case js_match url pattern of Some g \<Rightarrow> Some g | None \<Rightarrow> first_match ps url)"

text \<open>
  \<open>extractVideoId\<close> returns \<open>match[1]\<close> of the first pattern that matches and throws
  \<open>Error('Invalid YouTube URL')\<close> when none does. Group 1 takes part in every match of
  the four patterns (lemma \<open>first_match_patterns_group\<close> below), so the branch for an
  undefined \<open>match[1]\<close> is never taken.
\<close>

definition extractVideoId :: "string \<Rightarrow> js_error + string" where
  "extractVideoId url =
     (case first_match patterns url of
        Some (Some v) \<Rightarrow> Inr v
      | Some None \<Rightarrow> Inr []
      | None \<Rightarrow> Inl (Error ''Invalid YouTube URL''))"

section \<open>\<open>formatTime\<close> and \<open>fetchTranscript\<close>\<close>

fun string_of_nat :: "nat \<Rightarrow> string" where
  "string_of_nat n =
     (if n < 10 then [char_of (48 + n)]
      else string_of_nat (n div 10) @ [char_of (48 + n mod 10)])"

declare string_of_nat.simps [simp del]

definition padStart :: "nat \<Rightarrow> char \<Rightarrow> string \<Rightarrow> string" where
  "padStart n c s = replicate (n - length s) c @ s"

fun join :: "string \<Rightarrow> string list \<Rightarrow> string" where
  "join sep [] = []"
| "join sep [x] = x"
| "join sep (x # y # ys) = x @ sep @ join sep (y # ys)"

text \<open>\<open>formatTime\<close> on a whole, non-negative number of milliseconds.\<close>

definition formatTime :: "nat \<Rightarrow> string" where
  "formatTime milliseconds =
     (let seconds = milliseconds div 1000;
          hours = seconds div 3600;
          minutes = (seconds mod 3600) div 60;
          secs = seconds mod 60
      in join '':'' (map (\<lambda>v. padStart 2 CHR ''0'' (string_of_nat v)) [hours, minutes, secs]))"

text \<open>
  A segment as \<open>youtube-transcript-plus\<close> delivers it, and as the response carries it.
  Durations are JavaScript numbers; they are kept as rationals here, and no statement
  below depends on their arithmetic.
\<close>

record upstream_segment =
  offset :: nat
  utext :: string
  duration :: rat
  lang :: "string option"

record transcript_segment =
  start :: string
  seg_text :: string
  seg_duration :: rat

record transcript_result =
  title :: string
  videoId :: string
  transcript :: "transcript_segment list"
  segmentCount :: nat
  language :: string

text \<open>
  What the awaited call \<open>getYoutubeTranscript(videoId, options)\<close> gives: a value
  (\<open>None\<close> for \<open>null\<close> or \<open>undefined\<close>, else the array of segments) or a thrown error.
  The functions below take this reply as their first argument.
\<close>

datatype upstream_reply = Returns "upstream_segment list option" | Throws js_error

text \<open>\<open>String.prototype.includes\<close>.\<close>

fun js_includes :: "string \<Rightarrow> string \<Rightarrow> bool" where
  "js_includes [] sub = (sub = [])"
| "js_includes (c # s) sub = (strip sub (c # s) \<noteq> None \<or> js_includes s sub)"

text \<open>The \<open>catch\<close> block of \<open>fetchTranscript\<close>.\<close>

definition catch_fetch :: "js_error \<Rightarrow> js_error" where
  "catch_fetch error =
     (if js_includes (message error) ''Video unavailable''
        then Error ''Video is unavailable or private''
      else if js_includes (message error) ''Transcript is disabled''
        then Error ''Transcripts are disabled for this video''
      else if js_includes (message error) ''No transcripts available''
        then Error ''No transcript available for this video''
      else error)"

definition format_segment :: "upstream_segment \<Rightarrow> transcript_segment" where
  "format_segment segment =
     \<lparr> start = formatTime (offset segment),
       seg_text = utext segment,
       seg_duration = duration segment / 1000 \<rparr>"

text \<open>\<open>transcriptData[0]?.lang || 'unknown'\<close>: an undefined or empty \<open>lang\<close> is falsy.\<close>

definition lang_or_unknown :: "upstream_segment \<Rightarrow> string" where
  "lang_or_unknown segment =
     (case lang segment of None \<Rightarrow> ''unknown'' | Some l \<Rightarrow> if l = [] then ''unknown'' else l)"

definition try_fetch :: "upstream_reply \<Rightarrow> string \<Rightarrow> js_error + transcript_result" where
  "try_fetch reply videoUrl =
     (case extractVideoId videoUrl of
        Inl e \<Rightarrow> Inl e
      | Inr vid \<Rightarrow>
          (case reply of
             Throws e \<Rightarrow> Inl e
           | Returns None \<Rightarrow> Inl (Error ''No transcript available for this video'')
           | Returns (Some []) \<Rightarrow> Inl (Error ''No transcript available for this video'')
           | Returns (Some (s # ss)) \<Rightarrow>
               Inr \<lparr> title = ''Video '' @ vid,
                     videoId = vid,
                     transcript = map format_segment (s # ss),
                     segmentCount = length (map format_segment (s # ss)),
                     language = lang_or_unknown s \<rparr>))"

definition fetchTranscript :: "upstream_reply \<Rightarrow> string \<Rightarrow> js_error + transcript_result" where
  "fetchTranscript reply videoUrl =
     (case try_fetch reply videoUrl of
        Inl error \<Rightarrow> Inl (catch_fetch error)
      | Inr result \<Rightarrow> Inr result)"

section \<open>The Result Cache\<close>

text \<open>
  Modelled from the spec: the cache is an instance of the library \<open>node-cache\<close>, whose
  code is not part of the sources. The state and the operations below follow the
  contract of the spec's Result Cache (section 4.3) and its CacheEntry (section 3).
  Time is an explicit number of milliseconds. The entries are an association list with
  distinct keys.
\<close>

record cache_entry =
  stored :: transcript_result
  insertedAt :: nat
  expiresAt :: nat

record cache_state =
  entries :: "(string \<times> cache_entry) list"
  hitCount :: nat
  missCount :: nat

text \<open>
  Modelled from the spec: \<open>get(key)\<close> of the absent cache library, "returns Miss if
  absent or expired"; the counters are "incremented on every get".
\<close>

definition cache_get :: "cache_state \<Rightarrow> nat \<Rightarrow> string \<Rightarrow> transcript_result option \<times> cache_state" where
  "cache_get c now k =
     (case map_of (entries c) k of
        None \<Rightarrow> (None, c\<lparr>missCount := missCount c + 1\<rparr>)
      | Some e \<Rightarrow>
          if now < expiresAt e then (Some (stored e), c\<lparr>hitCount := hitCount c + 1\<rparr>)
          else (None, c\<lparr>missCount := missCount c + 1\<rparr>))"

text \<open>
  Modelled from the spec: \<open>put(key, result, ttl)\<close> of the absent cache library, "stores
  or replaces the entry with a fresh expiry".
\<close>

definition cache_put :: "cache_state \<Rightarrow> nat \<Rightarrow> string \<Rightarrow> transcript_result \<Rightarrow> nat \<Rightarrow> cache_state" where
  "cache_put c now k r ttl =
     c\<lparr>entries := AList.update k \<lparr>stored = r, insertedAt = now, expiresAt = now + ttl\<rparr> (entries c)\<rparr>"

text \<open>
  Modelled from the spec: \<open>invalidate(key)\<close> of the absent cache library, "removes the
  entry if present; returns whether something was removed".
\<close>

definition cache_invalidate :: "cache_state \<Rightarrow> string \<Rightarrow> bool \<times> cache_state" where
  "cache_invalidate c k =
     (map_of (entries c) k \<noteq> None, c\<lparr>entries := AList.delete k (entries c)\<rparr>)"

text \<open>Modelled from the spec: \<open>clear()\<close> of the absent cache library.\<close>

definition cache_clear :: "cache_state \<Rightarrow> cache_state" where
  "cache_clear c = c\<lparr>entries := []\<rparr>"

text \<open>
  Modelled from the spec: \<open>stats()\<close> of the absent cache library, the number of entries
  and the two counters.
\<close>

definition cache_stats :: "cache_state \<Rightarrow> nat \<times> nat \<times> nat" where
  "cache_stats c = (length (entries c), hitCount c, missCount c)"

text \<open>\<open>stdTTL: 3600\<close>, in seconds.\<close>

definition stdTTL :: nat where
  "stdTTL = 3600"

text \<open>
  Modelled from the spec: \<open>cache.del(videoId)\<close> of the absent cache library. The
  handler compares what it gives with 0, so it is a number: the number of entries that
  the invalidation of the one key removed.
\<close>

definition cache_del :: "cache_state \<Rightarrow> string \<Rightarrow> nat \<times> cache_state" where
  "cache_del c k = (case cache_invalidate c k of (removed, c') \<Rightarrow> (if removed then 1 else 0, c'))"

section \<open>The Rate Limiter\<close>

text \<open>
  Modelled from the spec: the limiter is an instance of the library
  \<open>express-rate-limit\<close>, whose code is not part of the sources. The state and the
  admission below follow the fixed-window contract of the spec's Rate Limiter
  (section 4.2) and its RateWindow (section 3). The window length, the limit and the
  message are the ones the source configures.
\<close>

record rate_window =
  windowStart :: nat
  count :: nat

type_synonym limiter_state = "string \<rightharpoonup> rate_window"

definition windowMs :: nat where
  "windowMs = 60 * 1000"

definition max_requests :: nat where
  "max_requests = 30"

definition limit_message :: string where
  "limit_message = ''Too many requests from this IP, please try again later.''"

text \<open>
  Modelled from the spec: the window that a request of a client falls into, "created
  lazily on first request, reset when the window boundary is crossed".
\<close>

definition current_window :: "limiter_state \<Rightarrow> string \<Rightarrow> nat \<Rightarrow> rate_window" where
  "current_window wins clientAddress now =
     (case wins clientAddress of
        None \<Rightarrow> \<lparr>windowStart = now, count = 0\<rparr>
      | Some w \<Rightarrow>
          if windowStart w + windowMs \<le> now then \<lparr>windowStart = now, count = 0\<rparr> else w)"

text \<open>
  Modelled from the spec: \<open>admit(clientAddress, now)\<close> of the absent limiter library.
  The current request is counted and rejected when the count exceeds the limit; a
  rejection does not raise the count beyond the limit plus one.
\<close>

definition admit :: "limiter_state \<Rightarrow> string \<Rightarrow> nat \<Rightarrow> bool \<times> limiter_state" where
  "admit wins clientAddress now =
     (let w = current_window wins clientAddress now;
          n = count w + 1
      in if n > max_requests
         then (False, wins(clientAddress \<mapsto> w\<lparr>count := max_requests + 1\<rparr>))
         else (True, wins(clientAddress \<mapsto> w\<lparr>count := n\<rparr>)))"

section \<open>The server\<close>

text \<open>
  The state that the handlers share: the cache, the limiter, and the list of the video
  identifiers with which \<open>getYoutubeTranscript\<close> has been invoked, in order.
\<close>

record app_state =
  cache :: cache_state
  limiter :: limiter_state
  upstream_calls :: "string list"

datatype body =
    ErrorBody string
  | UsageBody string string
  | TranscriptBody transcript_result bool
  | HealthBody string nat bool "nat \<times> nat \<times> nat"
  | StatsBody "nat \<times> nat \<times> nat" nat
  | SuccessBody bool string
  | NotFoundBody string "string list"
  | TextBody string

record response =
  status :: nat
  body :: body

text \<open>\<open>req.query.videoUrl\<close>: absent, a string, or an array or object of the query parser.\<close>

datatype query_value = Undefined | Str string | NotString

text \<open>
  \<open>parseInt(process.env.TIMEOUT || '30000')\<close>, with the environment variable taken as
  already read: \<open>None\<close> when it is unset or empty, else the number it spells.
\<close>

definition timeout_ms :: "nat option \<Rightarrow> nat" where
  "timeout_ms TIMEOUT = (case TIMEOUT of None \<Rightarrow> 30000 | Some t \<Rightarrow> t)"

text \<open>
  A request that has reached \<open>await Promise.race(...)\<close>: the locator, the cache key, and
  the delay of the timer that was started.
\<close>

record pending =
  p_videoUrl :: string
  p_videoId :: string
  p_timer :: nat

text \<open>
  The call \<open>fetchTranscript(videoUrl)\<close> runs up to its first \<open>await\<close> at once: it
  extracts the identifier again and invokes \<open>getYoutubeTranscript\<close> with it.
\<close>

definition start_fetch :: "app_state \<Rightarrow> string \<Rightarrow> app_state" where
  "start_fetch st videoUrl =
     (case extractVideoId videoUrl of
        Inl e \<Rightarrow> st
      | Inr vid \<Rightarrow> st\<lparr>upstream_calls := upstream_calls st @ [vid]\<rparr>)"

text \<open>
  The handler of \<open>GET /transcript\<close> up to the \<open>await\<close>: it either responds (\<open>Inl\<close>) or
  suspends (\<open>Inr\<close>).
\<close>

definition transcript_begin ::
  "app_state \<Rightarrow> nat option \<Rightarrow> nat \<Rightarrow> query_value \<Rightarrow> (response + pending) \<times> app_state" where
  "transcript_begin st TIMEOUT now q =
     (let timeout = timeout_ms TIMEOUT;
          missing = \<lparr>status = 400, body = UsageBody ''Missing videoUrl parameter''
                       ''GET /transcript?videoUrl=<youtube_url>''\<rparr>;
          invalid = \<lparr>status = 400, body = ErrorBody ''Invalid videoUrl parameter''\<rparr>
      in case q of
           Undefined \<Rightarrow> (Inl missing, st)
         | NotString \<Rightarrow> (Inl invalid, st)
         | Str videoUrl \<Rightarrow>
             if videoUrl = [] then (Inl missing, st)
             else if length videoUrl > 200 then (Inl invalid, st)
             else
               (case extractVideoId videoUrl of
                  Inl error \<Rightarrow> (Inl \<lparr>status = 400, body = ErrorBody (message error)\<rparr>, st)
                | Inr vid \<Rightarrow>
                    (case cache_get (cache st) now vid of
                       (Some cachedResult, c') \<Rightarrow>
                         (Inl \<lparr>status = 200, body = TranscriptBody cachedResult True\<rparr>,
                          st\<lparr>cache := c'\<rparr>)
                     | (None, c') \<Rightarrow>
                         (Inr \<lparr>p_videoUrl = videoUrl, p_videoId = vid, p_timer = timeout\<rparr>,
                          start_fetch (st\<lparr>cache := c'\<rparr>) videoUrl))))"

text \<open>
  Which of the two promises of \<open>Promise.race([transcriptPromise, timeoutPromise])\<close>
  settles first. The timer rejects with \<open>Error('Request timeout')\<close>.
\<close>

datatype race_order = FetchFirst | TimerFirst

definition Promise_race ::
  "race_order \<Rightarrow> js_error + transcript_result \<Rightarrow> js_error + transcript_result" where
  "Promise_race order transcriptPromise =
     (case order of FetchFirst \<Rightarrow> transcriptPromise | TimerFirst \<Rightarrow> Inl (Error ''Request timeout''))"

text \<open>The handler of \<open>GET /transcript\<close> from the point where the race has settled.\<close>

definition transcript_finish ::
  "app_state \<Rightarrow> nat \<Rightarrow> pending \<Rightarrow> upstream_reply \<Rightarrow> race_order \<Rightarrow> response \<times> app_state" where
  "transcript_finish st now p reply order =
     (case Promise_race order (fetchTranscript reply (p_videoUrl p)) of
        Inr result \<Rightarrow>
          (\<lparr>status = 200, body = TranscriptBody result False\<rparr>,
           st\<lparr>cache := cache_put (cache st) now (p_videoId p) result (stdTTL * 1000)\<rparr>)
      | Inl error \<Rightarrow>
          if message error = ''Request timeout''
          then (\<lparr>status = 504,
                 body = ErrorBody ''Request timeout - the video transcript took too long to fetch''\<rparr>, st)
          else (\<lparr>status = 500,
                 body = ErrorBody (''Error fetching transcript: '' @ message error)\<rparr>, st))"

text \<open>
  What one request meets outside the server: the value of \<open>TIMEOUT\<close>, the time at which
  it arrives, the time at which its race settles, the reply of the upstream library, and
  the order in which fetch and timer settle.
\<close>

record world =
  TIMEOUT :: "nat option"
  arrival :: nat
  settled :: nat
  upstream :: upstream_reply
  order :: race_order

text \<open>A request to \<open>GET /transcript\<close> that no other request interleaves with.\<close>

definition transcript_handler :: "app_state \<Rightarrow> world \<Rightarrow> query_value \<Rightarrow> response \<times> app_state" where
  "transcript_handler st w q =
     (case transcript_begin st (TIMEOUT w) (arrival w) q of
        (Inl res, st') \<Rightarrow> (res, st')
      | (Inr p, st') \<Rightarrow> transcript_finish st' (settled w) p (upstream w) (order w))"

text \<open>
  The race on a clock. The timer of \<open>timeout\<close> milliseconds is started first
  (\<open>setTimeout\<close>), then the fetch; \<open>fetch_delay\<close> is the number of milliseconds after
  which the promise of \<open>fetchTranscript\<close> settles, \<open>None\<close> when it never does.
  \<open>Promise.race\<close> settles with the promise that settles first: the fetch when it
  settles before the timer is due, the timer otherwise. A fetch that settles at the very
  instant at which the timer is due loses, since the timer was started before it.
\<close>

definition race_winner :: "nat \<Rightarrow> nat option \<Rightarrow> race_order" where
  "race_winner timeout fetch_delay =
     (case fetch_delay of
        None \<Rightarrow> TimerFirst
      | Some d \<Rightarrow> if d < timeout then FetchFirst else TimerFirst)"

text \<open>The milliseconds after which the race settles.\<close>

definition race_elapsed :: "nat \<Rightarrow> nat option \<Rightarrow> nat" where
  "race_elapsed timeout fetch_delay =
     (case fetch_delay of None \<Rightarrow> timeout | Some d \<Rightarrow> min d timeout)"

text \<open>
  A request to \<open>GET /transcript\<close> on the clock: it arrives at \<open>now\<close>, and when it
  suspends, the timer that it started (\<open>p_timer\<close>) and the delay of the fetch decide
  the order and the time at which it continues. The result is the response, the time of
  the response, and the state.
\<close>

definition transcript_timed ::
  "app_state \<Rightarrow> nat option \<Rightarrow> nat \<Rightarrow> query_value \<Rightarrow> upstream_reply \<Rightarrow> nat option \<Rightarrow>
     (response \<times> nat) \<times> app_state" where
  "transcript_timed st T now q reply fetch_delay =
     (case transcript_begin st T now q of
        (Inl res, st') \<Rightarrow> ((res, now), st')
      | (Inr p, st') \<Rightarrow>
          (case transcript_finish st' (now + race_elapsed (p_timer p) fetch_delay) p reply
                  (race_winner (p_timer p) fetch_delay) of
             (res, st'') \<Rightarrow> ((res, now + race_elapsed (p_timer p) fetch_delay), st'')))"

definition cache_delete_handler :: "app_state \<Rightarrow> string \<Rightarrow> response \<times> app_state" where
  "cache_delete_handler st vid =
     (case cache_del (cache st) vid of
        (deleted, c') \<Rightarrow>
          (\<lparr>status = 200,
            body = SuccessBody (deleted > 0)
                     (if deleted > 0 then ''Cache cleared'' else ''Video not found in cache'')\<rparr>,
           st\<lparr>cache := c'\<rparr>))"

definition cache_flush_handler :: "app_state \<Rightarrow> response \<times> app_state" where
  "cache_flush_handler st =
     (\<lparr>status = 200, body = SuccessBody True ''All cache cleared''\<rparr>,
      st\<lparr>cache := cache_clear (cache st)\<rparr>)"

definition health_handler :: "app_state \<Rightarrow> bool \<Rightarrow> nat \<Rightarrow> response \<times> app_state" where
  "health_handler st USE_PROXY now =
     (\<lparr>status = 200, body = HealthBody ''ok'' now USE_PROXY (cache_stats (cache st))\<rparr>, st)"

definition cache_stats_handler :: "app_state \<Rightarrow> response \<times> app_state" where
  "cache_stats_handler st =
     (\<lparr>status = 200, body = StatsBody (cache_stats (cache st)) (length (entries (cache st)))\<rparr>, st)"

definition not_found_handler :: "app_state \<Rightarrow> response \<times> app_state" where
  "not_found_handler st =
     (\<lparr>status = 404,
       body = NotFoundBody ''Not found''
                [''GET /health'', ''GET /transcript?videoUrl=<youtube_url>'', ''GET /cache/stats'',
                 ''DELETE /cache/:videoId'', ''DELETE /cache'']\<rparr>, st)"

text \<open>The routes, as the framework has matched method and path.\<close>

datatype route =
    GetHealth
  | GetTranscript query_value
  | GetCacheStats
  | DeleteCacheKey string
  | DeleteCache
  | Unmatched

record request =
  ip :: string
  route :: route

definition dispatch :: "app_state \<Rightarrow> bool \<Rightarrow> world \<Rightarrow> route \<Rightarrow> response \<times> app_state" where
  "dispatch st USE_PROXY w r =
     (case r of
        GetHealth \<Rightarrow> health_handler st USE_PROXY (arrival w)
      | GetTranscript q \<Rightarrow> transcript_handler st w q
      | GetCacheStats \<Rightarrow> cache_stats_handler st
      | DeleteCacheKey vid \<Rightarrow> cache_delete_handler st vid
      | DeleteCache \<Rightarrow> cache_flush_handler st
      | Unmatched \<Rightarrow> not_found_handler st)"

text \<open>
  \<open>app.use(limiter)\<close> comes before every route. The CORS middleware registered before
  it and the JSON body parser after it are not modelled.
\<close>

definition app :: "app_state \<Rightarrow> bool \<Rightarrow> world \<Rightarrow> request \<Rightarrow> response \<times> app_state" where
  "app st USE_PROXY w req =
     (case admit (limiter st) (ip req) (arrival w) of
        (False, wins') \<Rightarrow> (\<lparr>status = 429, body = TextBody limit_message\<rparr>, st\<lparr>limiter := wins'\<rparr>)
      | (True, wins') \<Rightarrow> dispatch (st\<lparr>limiter := wins'\<rparr>) USE_PROXY w (route req))"

text \<open>The server when it starts: nothing cached, no client seen, no upstream call made.\<close>

definition initial_state :: app_state where
  "initial_state =
     \<lparr>cache = \<lparr>entries = [], hitCount = 0, missCount = 0\<rparr>,
      limiter = Map.empty,
      upstream_calls = []\<rparr>"

text \<open>Requests served one after the other, each with the world it meets.\<close>

fun serve :: "app_state \<Rightarrow> bool \<Rightarrow> (world \<times> request) list \<Rightarrow> response list \<times> app_state" where
  "serve st USE_PROXY [] = ([], st)"
| "serve st USE_PROXY ((w, req) # rest) =
     (case app st USE_PROXY w req of
        (res, st') \<Rightarrow> (case serve st' USE_PROXY rest of (ress, st'') \<Rightarrow> (res # ress, st'')))"

text \<open>The states that the server can be in between requests.\<close>

inductive reachable :: "bool \<Rightarrow> app_state \<Rightarrow> bool" for USE_PROXY :: bool where
  reachable_initial: "reachable USE_PROXY initial_state"
| reachable_app: "reachable USE_PROXY st \<Longrightarrow> reachable USE_PROXY (snd (app st USE_PROXY w req))"

section \<open>Auxiliary notions for the proofs\<close>

text \<open>The characters that every match of a pattern consumes.\<close>

fun needs :: "regex \<Rightarrow> char set" where
  "needs (Lit l) = set l"
| "needs (Opt r) = {}"
| "needs (Seq r1 r2) = needs r1 \<union> needs r2"
| "needs (Plus P) = {}"
| "needs (Rep n P) = {}"
| "needs (Cap r) = needs r"
| "needs Bol = {}"
| "needs Eol = {}"

text \<open>Whether every match of a pattern passes through the capturing group.\<close>

fun sets_group :: "regex \<Rightarrow> bool" where
  "sets_group (Cap r) = True"
| "sets_group (Seq r1 r2) = (sets_group r1 \<or> sets_group r2)"
| "sets_group r = False"

text \<open>Every cached result carries the title built from the key it is stored under.\<close>

definition titled :: "cache_state \<Rightarrow> bool" where
  "titled c = (\<forall>k e. map_of (entries c) k = Some e \<longrightarrow> title (stored e) = ''Video '' @ k)"

section \<open>Example values\<close>

definition example_result :: transcript_result where
  "example_result =
     \<lparr>title = ''Video abc12345678'', videoId = ''abc12345678'',
      transcript = [\<lparr>start = ''00:00:01'', seg_text = ''hello'', seg_duration = 5 / 2\<rparr>],
      segmentCount = 1, language = ''en''\<rparr>"

definition example_world :: world where
  "example_world =
     \<lparr>TIMEOUT = None, arrival = 0, settled = 800,
      upstream = Returns (Some [\<lparr>offset = 1500, utext = ''hello'', duration = 2500, lang = Some ''en''\<rparr>]),
      order = FetchFirst\<rparr>"

section \<open>Properties of the matcher\<close>

lemma strip_Some: "strip l s = Some s' \<Longrightarrow> s = l @ s'"
  by (induction l s rule: strip.induct) (auto split: if_splits)

lemma strip_append: "strip l (l @ s) = Some s"
  by (induction l) auto

lemma rx_match_consumes:
  "(j, s', g') \<in> set (rx_match r (i, s, g)) \<Longrightarrow> \<exists>u. s = u @ s' \<and> needs r \<subseteq> set u \<and> j = i + length u"
proof (induction r arbitrary: i s g j s' g')
  case (Lit l)
  then have "strip l s = Some s'" "j = i + length l"
    by (auto split: option.splits)
  then show ?case
    by (intro exI[of _ l]) (auto dest: strip_Some)
next
  case (Opt r)
  then show ?case by fastforce
next
  case (Seq r1 r2)
  then obtain k t h where a: "(k, t, h) \<in> set (rx_match r1 (i, s, g))"
    and b: "(j, s', g') \<in> set (rx_match r2 (k, t, h))"
    by auto
  from Seq.IH(1)[OF a] obtain u where u: "s = u @ t" "needs r1 \<subseteq> set u" "k = i + length u" by blast
  from Seq.IH(2)[OF b] obtain v where v: "t = v @ s'" "needs r2 \<subseteq> set v" "j = k + length v" by blast
  show ?case
    by (rule exI[of _ "u @ v"]) (use u v in auto)
next
  case (Plus P)
  then obtain n where "s' = drop n s" "j = i + n" "n \<le> length s" 
    using length_takeWhile_le[of P s] by auto
  then show ?case
    by (intro exI[of _ "take n s"]) auto
next
  case (Rep n P)
  then show ?case
    by (intro exI[of _ "take n s"]) (auto split: if_splits)
next
  case (Cap r)
  then show ?case by fastforce
next
  case Bol
  then show ?case by (auto split: if_splits)
next
  case Eol
  then show ?case by (auto split: if_splits)
qed

lemma rx_search_needs: "rx_search r i s = Some g \<Longrightarrow> needs r \<subseteq> set s"
proof (induction s arbitrary: i)
  case Nil
  then obtain j s' g' where "(j, s', g') \<in> set (rx_match r (i, [], None))"
    by (cases "rx_match r (i, [], None)") auto
  from rx_match_consumes[OF this] show ?case by auto
next
  case (Cons c s)
  show ?case
  proof (cases "rx_match r (i, c # s, None)")
    case Nil
    with Cons have "needs r \<subseteq> set s" by simp
    then show ?thesis by auto
  next
    case (Cons st sts)
    then have "(fst st, fst (snd st), snd (snd st)) \<in> set (rx_match r (i, c # s, None))" by simp
    from rx_match_consumes[OF this] obtain u where "c # s = u @ fst (snd st)" "needs r \<subseteq> set u"
      by blast
    then have "set u \<subseteq> set (c # s)" by (metis set_append Un_upper1)
    with \<open>needs r \<subseteq> set u\<close> show ?thesis by blast
  qed
qed

lemma rx_search_lacking: "c \<in> needs r \<Longrightarrow> c \<notin> set s \<Longrightarrow> rx_search r i s = None"
  using rx_search_needs[of r i s] by (cases "rx_search r i s") auto

lemma rx_match_keeps_group:
  "(j, s', g') \<in> set (rx_match r (i, s, Some g)) \<Longrightarrow> g' \<noteq> None"
  by (induction r arbitrary: i s g j s' g') (fastforce split: option.splits if_splits)+

lemma rx_match_sets_group:
  "sets_group r \<Longrightarrow> (j, s', g') \<in> set (rx_match r (i, s, g)) \<Longrightarrow> g' \<noteq> None"
proof (induction r arbitrary: i s g j s' g')
  case (Seq r1 r2)
  from Seq.prems(2) obtain k t h where a: "(k, t, h) \<in> set (rx_match r1 (i, s, g))"
    and b: "(j, s', g') \<in> set (rx_match r2 (k, t, h))"
    by auto
  show ?case
  proof (cases "sets_group r2")
    case True
    then show ?thesis using Seq.IH(2) b by blast
  next
    case False
    then have "sets_group r1" using Seq.prems(1) by simp
    then have "h \<noteq> None" using Seq.IH(1) a by blast
    then show ?thesis using rx_match_keeps_group b by (cases h) auto
  qed
qed auto

lemma rx_match_hd_group:
  assumes "sets_group r" "rx_match r st = st' # sts"
  shows "snd (snd st') \<noteq> None"
proof -
  have "(fst st', fst (snd st'), snd (snd st')) \<in> set (rx_match r (fst st, fst (snd st), snd (snd st)))"
    using assms(2) by simp
  from rx_match_sets_group[OF assms(1) this] show ?thesis .
qed

lemma rx_search_group: "sets_group r \<Longrightarrow> rx_search r i s \<noteq> Some None"
proof (induction s arbitrary: i)
  case Nil
  then show ?case
    using rx_match_hd_group[of r "(i, [], None)"]
    by (cases "rx_match r (i, [], None)") auto
next
  case (Cons c s)
  then show ?case
    using rx_match_hd_group[of r "(i, c # s, None)"]
    by (cases "rx_match r (i, c # s, None)") auto
qed

lemma first_match_group:
  "\<forall>p \<in> set ps. sets_group p \<Longrightarrow> first_match ps url \<noteq> Some None"
proof (induction ps)
  case Nil
  show ?case by simp
next
  case (Cons p ps)
  then have "js_match url p \<noteq> Some None"
    by (simp add: js_match_def rx_search_group)
  with Cons show ?case
    by (cases "js_match url p") auto
qed

lemma first_match_patterns_group: "first_match patterns url \<noteq> Some None"
  by (rule first_match_group) (simp add: patterns_def scheme_www_def)

lemma first_match_first:
  "first_match ps url = Some g \<longleftrightarrow>
     (\<exists>i < length ps. js_match url (ps ! i) = Some g \<and> (\<forall>j < i. js_match url (ps ! j) = None))"
proof (induction ps)
  case Nil
  show ?case by simp
next
  case (Cons p ps)
  show ?case
  proof (cases "js_match url p")
    case None
    have "(\<exists>i < length (p # ps). js_match url ((p # ps) ! i) = Some g \<and> (\<forall>j < i. js_match url ((p # ps) ! j) = None))
       \<longleftrightarrow> (\<exists>i < length ps. js_match url (ps ! i) = Some g \<and> (\<forall>j < i. js_match url (ps ! j) = None))"
      (is "?L \<longleftrightarrow> ?R")
    proof
      assume ?L
      then obtain i where i: "i < length (p # ps)" "js_match url ((p # ps) ! i) = Some g"
        "\<forall>j < i. js_match url ((p # ps) ! j) = None" by blast
      with None obtain k where k: "i = Suc k" by (cases i) auto
      have "\<forall>j < k. js_match url (ps ! j) = None"
      proof (intro allI impI)
        fix j assume "j < k"
        then have "Suc j < i" using k by simp
        with i(3) have "js_match url ((p # ps) ! Suc j) = None" by blast
        then show "js_match url (ps ! j) = None" by simp
      qed
      with i k show ?R by auto
    next
      assume ?R
      then obtain i where i: "i < length ps" "js_match url (ps ! i) = Some g"
        "\<forall>j < i. js_match url (ps ! j) = None" by blast
      have "\<forall>j < Suc i. js_match url ((p # ps) ! j) = None"
      proof (intro allI impI)
        fix j assume "j < Suc i"
        then show "js_match url ((p # ps) ! j) = None"
          using None i(3) by (cases j) auto
      qed
      with i show ?L by (intro exI[of _ "Suc i"]) auto
    qed
    with None Cons show ?thesis by simp
  next
    case (Some h)
    have "(\<exists>i < length (p # ps). js_match url ((p # ps) ! i) = Some g \<and> (\<forall>j < i. js_match url ((p # ps) ! j) = None))
       \<longleftrightarrow> h = g"
    proof
      assume "\<exists>i < length (p # ps). js_match url ((p # ps) ! i) = Some g \<and> (\<forall>j < i. js_match url ((p # ps) ! j) = None)"
      then obtain i where i: "js_match url ((p # ps) ! i) = Some g"
        "\<forall>j < i. js_match url ((p # ps) ! j) = None" by blast
      have "i = 0"
      proof (rule ccontr)
        assume "i \<noteq> 0"
        then have "js_match url ((p # ps) ! 0) = None" using i(2) by blast
        with Some show False by simp
      qed
      with i Some show "h = g" by simp
    next
      assume "h = g"
      with Some show "\<exists>i < length (p # ps). js_match url ((p # ps) ! i) = Some g \<and> (\<forall>j < i. js_match url ((p # ps) ! j) = None)"
        by (intro exI[of _ 0]) auto
    qed
    with Some show ?thesis by simp
  qed
qed

lemma id_char_not_special:
  "id_char c \<Longrightarrow> c \<noteq> CHR ''.'' \<and> c \<noteq> CHR ''&'' \<and> c \<noteq> CHR ''?'' \<and> c \<noteq> CHR ''/''"
  by (auto simp: id_char_def in_range_def)

lemma rx_search_hd:
  "rx_match r (i, s, None) = st # sts \<Longrightarrow> rx_search r i s = Some (snd (snd st))"
  by (cases s) auto

lemma takeWhile_all: "\<forall>c \<in> set s. P c \<Longrightarrow> takeWhile P s = s"
  by (induction s) auto

lemma rx_match_Cap_Plus:
  assumes "\<forall>c \<in> set s. P c" "s \<noteq> []"
  shows "rx_match (Cap (Plus P)) (i, s, g) =
           (i + length s, [], Some s) #
           map (\<lambda>(j, s', _). (j, s', Some (take (j - i) s)))
             (map (\<lambda>n. (i + n, drop n s, g)) (rev [1..<length s]))"
proof -
  have tw: "takeWhile P s = s" using assms(1) by (rule takeWhile_all)
  have len: "Suc 0 \<le> length s" using assms(2) by (cases s) auto
  have up: "rev [1..<Suc (length s)] = length s # rev [1..<length s]"
    using len by simp
  have "rx_match (Plus P) (i, s, g) =
          (i + length s, [], g) # map (\<lambda>n. (i + n, drop n s, g)) (rev [1..<length s])"
    unfolding rx_match.simps tw up by simp
  then show ?thesis by simp
qed

lemma bare_form:
  assumes "length vid = 11" "list_all id_char vid"
  shows "extractVideoId vid = Inr vid"
proof -
  have dot: "CHR ''.'' \<notin> set vid"
    using assms(2) id_char_not_special by (auto simp: list_all_iff)
  have 1: "js_match vid (patterns ! 0) = None"
    unfolding js_match_def by (rule rx_search_lacking[OF _ dot]) (simp add: patterns_def scheme_www_def)
  have 2: "js_match vid (patterns ! 1) = None"
    unfolding js_match_def by (rule rx_search_lacking[OF _ dot]) (simp add: patterns_def scheme_www_def)
  have 3: "js_match vid (patterns ! 2) = None"
    unfolding js_match_def by (rule rx_search_lacking[OF _ dot]) (simp add: patterns_def scheme_www_def)
  have "rx_match (patterns ! 3) (0, vid, None) = [(11, [], Some vid)]"
    using assms by (simp add: patterns_def)
  then have 4: "js_match vid (patterns ! 3) = Some (Some vid)"
    unfolding js_match_def by (simp add: rx_search_hd)
  show ?thesis
    using 1 2 3 4 by (simp add: extractVideoId_def patterns_def)
qed

section \<open>The normalizer on the accepted locator syntaxes\<close>

lemma url_patterns_tail:
  assumes "list_all id_char vid"
  shows "rx_search (patterns ! 0) i vid = None"
    and "rx_search (patterns ! 1) i vid = None"
    and "rx_search (patterns ! 2) i vid = None"
proof -
  have dot: "CHR ''.'' \<notin> set vid"
    using assms id_char_not_special by (auto simp: list_all_iff)
  show "rx_search (patterns ! 0) i vid = None"
    by (rule rx_search_lacking[OF _ dot]) (simp add: patterns_def scheme_www_def)
  show "rx_search (patterns ! 1) i vid = None"
    by (rule rx_search_lacking[OF _ dot]) (simp add: patterns_def scheme_www_def)
  show "rx_search (patterns ! 2) i vid = None"
    by (rule rx_search_lacking[OF _ dot]) (simp add: patterns_def scheme_www_def)
qed

lemma watch_form:
  assumes "vid \<noteq> []" "list_all id_char vid"
    and "scheme \<in> {[], ''http://'', ''https://''}" and "www \<in> {[], ''www.''}"
  shows "first_match patterns (scheme @ www @ ''youtube.com/watch?v='' @ vid) = Some (Some vid)"
proof -
  have P: "\<forall>c \<in> set vid. c \<noteq> CHR ''&''"
    using assms(2) id_char_not_special by (auto simp: list_all_iff)
  show ?thesis
    using assms(1,3,4) unfolding js_match_def patterns_def scheme_www_def first_match.simps
    by (auto simp add: rx_match_Cap_Plus[OF P] simp del: rx_match.simps(4,6))
qed

lemma embed_form:
  assumes "vid \<noteq> []" "list_all id_char vid"
    and "scheme \<in> {[], ''http://'', ''https://''}" and "www \<in> {[], ''www.''}"
  shows "first_match patterns (scheme @ www @ ''youtube.com/embed/'' @ vid) = Some (Some vid)"
proof -
  have P: "\<forall>c \<in> set vid. c \<noteq> CHR ''?''"
    using assms(2) id_char_not_special by (auto simp: list_all_iff)
  note tail = url_patterns_tail[OF assms(2), unfolded patterns_def scheme_www_def, simplified]
  show ?thesis
    using assms(1,3,4) unfolding js_match_def patterns_def scheme_www_def first_match.simps
    by (auto simp add: tail rx_match_Cap_Plus[OF P] simp del: rx_match.simps(4,6))
qed

lemma short_form:
  assumes "vid \<noteq> []" "list_all id_char vid"
    and "scheme \<in> {[], ''http://'', ''https://''}" and "www \<in> {[], ''www.''}"
  shows "first_match patterns (scheme @ www @ ''youtu.be/'' @ vid) = Some (Some vid)"
proof -
  have P: "\<forall>c \<in> set vid. c \<noteq> CHR ''?''"
    using assms(2) id_char_not_special by (auto simp: list_all_iff)
  note tail = url_patterns_tail[OF assms(2), unfolded patterns_def scheme_www_def, simplified]
  show ?thesis
    using assms(1,3,4) unfolding js_match_def patterns_def scheme_www_def first_match.simps
    by (auto simp add: tail rx_match_Cap_Plus[OF P] simp del: rx_match.simps(4,6))
qed

lemma extractVideoId_first_match:
  "first_match patterns url = Some (Some v) \<Longrightarrow> extractVideoId url = Inr v"
  by (simp add: extractVideoId_def)

lemma extractVideoId_Inr_iff:
  "extractVideoId url = Inr k \<longleftrightarrow> first_match patterns url = Some (Some k)"
  using first_match_patterns_group[of url]
  by (auto simp: extractVideoId_def split: option.splits)

lemma extractVideoId_Inl_iff:
  "extractVideoId url = Inl e \<longleftrightarrow> first_match patterns url = None \<and> e = Error ''Invalid YouTube URL''"
  by (auto simp: extractVideoId_def split: option.splits)

lemma first_match_None_iff:
  "first_match ps url = None \<longleftrightarrow> (\<forall>p \<in> set ps. js_match url p = None)"
  by (induction ps) (auto split: option.splits)

text \<open>
  Claim C1. For an identifier of 11 characters of the class \<open>[a-zA-Z0-9_-]\<close>, the
  locators \<open>youtube.com/watch?v=ID\<close>, \<open>youtube.com/embed/ID\<close> and \<open>youtu.be/ID\<close>, each
  with or without \<open>http://\<close> or \<open>https://\<close> and with or without \<open>www.\<close>, and the bare
  identifier all normalize to the same key, the identifier itself. The patterns are
  tried in the order of the list \<open>patterns\<close> and the first that matches decides: the
  result is the group of the pattern with the least index that matches, and the error
  \<open>Invalid YouTube URL\<close> exactly when no pattern matches.
\<close>

theorem extractVideoId_same_key:
  assumes "length vid = 11" and "list_all id_char vid"
    and "scheme \<in> {[], ''http://'', ''https://''}" and "www \<in> {[], ''www.''}"
  shows "extractVideoId (scheme @ www @ ''youtube.com/watch?v='' @ vid) = Inr vid
       \<and> extractVideoId (scheme @ www @ ''youtube.com/embed/'' @ vid) = Inr vid
       \<and> extractVideoId (scheme @ www @ ''youtu.be/'' @ vid) = Inr vid
       \<and> extractVideoId vid = Inr vid
       \<and> (\<forall>url k. extractVideoId url = Inr k \<longleftrightarrow>
            (\<exists>i < length patterns. js_match url (patterns ! i) = Some (Some k)
                \<and> (\<forall>j < i. js_match url (patterns ! j) = None)))
       \<and> (\<forall>url e. extractVideoId url = Inl e \<longleftrightarrow>
            (\<forall>p \<in> set patterns. js_match url p = None) \<and> e = Error ''Invalid YouTube URL'')"
proof -
  have ne: "vid \<noteq> []" using assms(1) by auto
  have "extractVideoId (scheme @ www @ ''youtube.com/watch?v='' @ vid) = Inr vid"
    by (rule extractVideoId_first_match) (rule watch_form[OF ne assms(2,3,4)])
  moreover have "extractVideoId (scheme @ www @ ''youtube.com/embed/'' @ vid) = Inr vid"
    by (rule extractVideoId_first_match) (rule embed_form[OF ne assms(2,3,4)])
  moreover have "extractVideoId (scheme @ www @ ''youtu.be/'' @ vid) = Inr vid"
    by (rule extractVideoId_first_match) (rule short_form[OF ne assms(2,3,4)])
  moreover have "extractVideoId vid = Inr vid"
    by (rule bare_form[OF assms(1,2)])
  moreover have "\<forall>url k. extractVideoId url = Inr k \<longleftrightarrow>
            (\<exists>i < length patterns. js_match url (patterns ! i) = Some (Some k)
                \<and> (\<forall>j < i. js_match url (patterns ! j) = None))"
    by (simp only: extractVideoId_Inr_iff first_match_first) simp
  moreover have "\<forall>url e. extractVideoId url = Inl e \<longleftrightarrow>
            (\<forall>p \<in> set patterns. js_match url p = None) \<and> e = Error ''Invalid YouTube URL''"
    by (simp only: extractVideoId_Inl_iff first_match_None_iff) simp
  ultimately show ?thesis by blast
qed

theorem extractVideoId_same_key_witness:
  "length ''abc12345678'' = 11 \<and> list_all id_char ''abc12345678''
   \<and> extractVideoId ''https://www.youtube.com/watch?v=abc12345678'' = Inr ''abc12345678''
   \<and> extractVideoId ''https://www.youtube.com/embed/abc12345678'' = Inr ''abc12345678''
   \<and> extractVideoId ''https://youtu.be/abc12345678'' = Inr ''abc12345678''
   \<and> extractVideoId ''abc12345678'' = Inr ''abc12345678''"
proof -
  have l: "length ''abc12345678'' = 11" by simp
  have a: "list_all id_char ''abc12345678''" by (simp add: id_char_def in_range_def)
  have s: "''https://'' \<in> {[], ''http://'', ''https://''}" by simp
  have w: "''www.'' \<in> {[], ''www.''}" by simp
  have n: "[] \<in> {[], ''www.''}" by simp
  show ?thesis
    using l a extractVideoId_same_key[OF l a s w] extractVideoId_same_key[OF l a s n]
    by simp
qed

section \<open>Rejection of malformed locators\<close>

lemma cache_get_changes: "snd (cache_get c now k) \<noteq> c"
proof -
  have "hitCount (snd (cache_get c now k)) + missCount (snd (cache_get c now k)) = Suc (hitCount c + missCount c)"
    by (simp add: cache_get_def split: option.splits)
  then show ?thesis by (metis n_not_Suc_n)
qed

lemma cache_get_entries: "entries (snd (cache_get c now k)) = entries c"
  by (simp add: cache_get_def split: option.splits)

lemma extractVideoId_no_match:
  "\<forall>p \<in> set patterns. js_match url p = None \<Longrightarrow> extractVideoId url = Inl (Error ''Invalid YouTube URL'')"
  by (simp add: extractVideoId_Inl_iff first_match_None_iff)

lemma no_match_hello: "\<forall>p \<in> set patterns. js_match ''hello world'' p = None"
  by (simp add: patterns_def js_match_def scheme_www_def id_char_def in_range_def)

text \<open>
  Claim C6. A locator that is the empty string, or longer than 200 characters, or that
  none of the four patterns matches, is answered with status 400 (with one of the three
  messages of the handler), and the state of the server is left exactly as it was: the
  cache, its hit and miss counters included, and the list of upstream invocations. That an
  unchanged state means no access is the content of the last two parts: every cache
  lookup changes the cache state (it counts a hit or a miss), and every fetch that gets
  past the normalizer adds an upstream invocation.
\<close>

theorem malformed_locator_rejected:
  assumes "videoUrl = [] \<or> length videoUrl > 200 \<or> (\<forall>p \<in> set patterns. js_match videoUrl p = None)"
  shows "status (fst (transcript_handler st w (Str videoUrl))) = 400
       \<and> body (fst (transcript_handler st w (Str videoUrl))) \<in>
           {UsageBody ''Missing videoUrl parameter'' ''GET /transcript?videoUrl=<youtube_url>'',
            ErrorBody ''Invalid videoUrl parameter'', ErrorBody ''Invalid YouTube URL''}
       \<and> snd (transcript_handler st w (Str videoUrl)) = st
       \<and> (\<forall>now k. snd (cache_get (cache st) now k) \<noteq> cache st)
       \<and> (\<forall>url. extractVideoId url \<noteq> Inl (Error ''Invalid YouTube URL'') \<longrightarrow> 
              upstream_calls (start_fetch st url) \<noteq> upstream_calls st)"
proof -
  consider (empty) "videoUrl = []" | (long) "videoUrl \<noteq> []" "length videoUrl > 200"
    | (nomatch) "videoUrl \<noteq> []" "\<not> length videoUrl > 200" "\<forall>p \<in> set patterns. js_match videoUrl p = None"
    using assms by blast
  then have "status (fst (transcript_handler st w (Str videoUrl))) = 400
       \<and> body (fst (transcript_handler st w (Str videoUrl))) \<in>
           {UsageBody ''Missing videoUrl parameter'' ''GET /transcript?videoUrl=<youtube_url>'',
            ErrorBody ''Invalid videoUrl parameter'', ErrorBody ''Invalid YouTube URL''}
       \<and> snd (transcript_handler st w (Str videoUrl)) = st"
  proof cases
    case empty
    then show ?thesis by (simp add: transcript_handler_def transcript_begin_def)
  next
    case long
    then show ?thesis by (simp add: transcript_handler_def transcript_begin_def)
  next
    case nomatch
    then show ?thesis
      by (simp add: transcript_handler_def transcript_begin_def extractVideoId_no_match)
  qed
  moreover have "\<forall>now k. snd (cache_get (cache st) now k) \<noteq> cache st"
    by (simp add: cache_get_changes)
  moreover have "\<forall>url. extractVideoId url \<noteq> Inl (Error ''Invalid YouTube URL'') \<longrightarrow> 
              upstream_calls (start_fetch st url) \<noteq> upstream_calls st"
    by (auto simp: start_fetch_def extractVideoId_Inl_iff split: sum.splits)
  ultimately show ?thesis by blast
qed

theorem malformed_locator_rejected_witness:
  "status (fst (transcript_handler initial_state example_world (Str ''hello world''))) = 400
   \<and> snd (transcript_handler initial_state example_world (Str ''hello world'')) = initial_state
   \<and> status (fst (transcript_handler initial_state example_world (Str []))) = 400
   \<and> snd (transcript_handler initial_state example_world (Str [])) = initial_state
   \<and> status (fst (transcript_handler initial_state example_world (Str (replicate 201 CHR ''a'')))) = 400
   \<and> snd (transcript_handler initial_state example_world (Str (replicate 201 CHR ''a''))) = initial_state"
proof -
  have a: "''hello world'' = [] \<or> length ''hello world'' > 200
      \<or> (\<forall>p \<in> set patterns. js_match ''hello world'' p = None)"
    using no_match_hello by blast
  have b: "([]::string) = [] \<or> length ([]::string) > 200
      \<or> (\<forall>p \<in> set patterns. js_match [] p = None)" by simp
  have c: "replicate 201 CHR ''a'' = [] \<or> length (replicate 201 CHR ''a'') > 200
      \<or> (\<forall>p \<in> set patterns. js_match (replicate 201 CHR ''a'') p = None)" by simp
  show ?thesis
    using
      malformed_locator_rejected[OF a, of initial_state example_world]
      malformed_locator_rejected[OF b, of initial_state example_world]
      malformed_locator_rejected[OF c, of initial_state example_world]
    by blast
qed

section \<open>Failures of the upstream fetch\<close>

text \<open>
  A request with a well-formed locator whose key is not in the cache runs the whole
  handler: the lookup, the start of the fetch, and the continuation after the race.
\<close>

lemma handler_miss:
  assumes "videoUrl \<noteq> []" "length videoUrl \<le> 200" "extractVideoId videoUrl = Inr vid"
    and "fst (cache_get (cache st) (arrival w) vid) = None"
  shows "transcript_handler st w (Str videoUrl) =
           transcript_finish (start_fetch (st\<lparr>cache := snd (cache_get (cache st) (arrival w) vid)\<rparr>) videoUrl)
             (settled w)
             \<lparr>p_videoUrl = videoUrl, p_videoId = vid, p_timer = timeout_ms (TIMEOUT w)\<rparr>
             (upstream w) (order w)"
  using assms
  by (cases "cache_get (cache st) (arrival w) vid")
     (simp add: transcript_handler_def transcript_begin_def)

lemma fetchTranscript_Throws:
  "extractVideoId videoUrl = Inr vid \<Longrightarrow>
   fetchTranscript (Throws e) videoUrl = Inl (catch_fetch e)"
  by (simp add: fetchTranscript_def try_fetch_def)

lemma catch_fetch_no_transcript:
  "catch_fetch (Error ''No transcript available for this video'') =
     Error ''No transcript available for this video''"
  by (simp add: catch_fetch_def)

lemma fetchTranscript_empty:
  "extractVideoId videoUrl = Inr vid \<Longrightarrow> reply = Returns None \<or> reply = Returns (Some []) \<Longrightarrow>
   fetchTranscript reply videoUrl = Inl (Error ''No transcript available for this video'')"
  by (auto simp: fetchTranscript_def try_fetch_def catch_fetch_no_transcript)

lemma finish_error:
  "fetchTranscript reply (p_videoUrl p) = Inl e \<Longrightarrow>
   transcript_finish st now p reply FetchFirst =
     (if message e = ''Request timeout''
      then \<lparr>status = 504,
            body = ErrorBody ''Request timeout - the video transcript took too long to fetch''\<rparr>
      else \<lparr>status = 500, body = ErrorBody (''Error fetching transcript: '' @ message e)\<rparr>, st)"
  by (simp add: transcript_finish_def Promise_race_def)

lemma finish_timer:
  "transcript_finish st now p reply TimerFirst =
     (\<lparr>status = 504,
       body = ErrorBody ''Request timeout - the video transcript took too long to fetch''\<rparr>, st)"
  by (simp add: transcript_finish_def Promise_race_def)

lemma extract_abc: "extractVideoId ''abc12345678'' = Inr ''abc12345678''"
  by (rule bare_form) (simp_all add: id_char_def in_range_def)

lemma extract_short: "extractVideoId ''https://youtu.be/abc12345678'' = Inr ''abc12345678''"
  using short_form[of "''abc12345678''" "''https://''" "[]"]
  by (simp add: extractVideoId_first_match id_char_def in_range_def)

text \<open>
  The handler recognizes the rejection of its own timer by the message
  \<open>Request timeout\<close>. An upstream error with exactly that message matches none of the
  three signatures of \<open>fetchTranscript\<close> and is rethrown unchanged, and the handler then
  answers 504 with the timeout message instead of 500 with the original message.
\<close>

theorem unrecognized_error_counterexample:
  "catch_fetch (Error ''Request timeout'') = Error ''Request timeout''
   \<and> fst (transcript_handler initial_state
        \<lparr>TIMEOUT = None, arrival = 0, settled = 1,
         upstream = Throws (Error ''Request timeout''), order = FetchFirst\<rparr>
        (Str ''abc12345678'')) =
       \<lparr>status = 504,
        body = ErrorBody ''Request timeout - the video transcript took too long to fetch''\<rparr>"
  by (simp add: catch_fetch_def transcript_handler_def transcript_begin_def extract_abc
      initial_state_def cache_get_def start_fetch_def transcript_finish_def Promise_race_def
      fetchTranscript_def try_fetch_def)

text \<open>
  Claim C7, as amended. When the upstream fetch settles first and fails, the response is
  decided by the message of the failure. An empty or missing list of segments gives 500
  with \<open>No transcript available for this video\<close>. A thrown error whose message
  includes \<open>Video unavailable\<close> gives 500 with \<open>Video is unavailable or private\<close>;
  otherwise one that includes \<open>Transcript is disabled\<close> gives 500 with
  \<open>Transcripts are disabled for this video\<close>; otherwise one that includes
  \<open>No transcripts available\<close> gives 500 with \<open>No transcript available for this video\<close>.
  Any other error gives 500 with its original message after the prefix
  \<open>Error fetching transcript: \<close>, unless that message is exactly \<open>Request timeout\<close>,
  which gives 504 with the timeout message.
\<close>

theorem upstream_failure_classified:
  assumes "videoUrl \<noteq> []" "length videoUrl \<le> 200" "extractVideoId videoUrl = Inr vid"
    and "fst (cache_get (cache st) (arrival w) vid) = None"
    and "order w = FetchFirst"
  shows "(upstream w = Returns None \<or> upstream w = Returns (Some []) \<longrightarrow>
            fst (transcript_handler st w (Str videoUrl)) =
              \<lparr>status = 500,
               body = ErrorBody ''Error fetching transcript: No transcript available for this video''\<rparr>)
       \<and> (\<forall>m. upstream w = Throws (Error m) \<longrightarrow>
            fst (transcript_handler st w (Str videoUrl)) =
              (if js_includes m ''Video unavailable''
               then \<lparr>status = 500,
                     body = ErrorBody ''Error fetching transcript: Video is unavailable or private''\<rparr>
               else if js_includes m ''Transcript is disabled''
               then \<lparr>status = 500,
                     body = ErrorBody ''Error fetching transcript: Transcripts are disabled for this video''\<rparr>
               else if js_includes m ''No transcripts available''
               then \<lparr>status = 500,
                     body = ErrorBody ''Error fetching transcript: No transcript available for this video''\<rparr>
               else if m = ''Request timeout''
               then \<lparr>status = 504,
                     body = ErrorBody ''Request timeout - the video transcript took too long to fetch''\<rparr>
               else \<lparr>status = 500, body = ErrorBody (''Error fetching transcript: '' @ m)\<rparr>))"
proof (intro conjI impI allI)
  assume "upstream w = Returns None \<or> upstream w = Returns (Some [])"
  then have "fetchTranscript (upstream w) videoUrl = Inl (Error ''No transcript available for this video'')"
    by (rule fetchTranscript_empty[OF assms(3)])
  then show "fst (transcript_handler st w (Str videoUrl)) =
              \<lparr>status = 500,
               body = ErrorBody ''Error fetching transcript: No transcript available for this video''\<rparr>"
    by (simp add: handler_miss[OF assms(1-4)] assms(5) finish_error)
next
  fix m
  assume "upstream w = Throws (Error m)"
  then have "fetchTranscript (upstream w) videoUrl = Inl (catch_fetch (Error m))"
    by (simp add: fetchTranscript_Throws[OF assms(3)])
  then show "fst (transcript_handler st w (Str videoUrl)) =
              (if js_includes m ''Video unavailable''
               then \<lparr>status = 500,
                     body = ErrorBody ''Error fetching transcript: Video is unavailable or private''\<rparr>
               else if js_includes m ''Transcript is disabled''
               then \<lparr>status = 500,
                     body = ErrorBody ''Error fetching transcript: Transcripts are disabled for this video''\<rparr>
               else if js_includes m ''No transcripts available''
               then \<lparr>status = 500,
                     body = ErrorBody ''Error fetching transcript: No transcript available for this video''\<rparr>
               else if m = ''Request timeout''
               then \<lparr>status = 504,
                     body = ErrorBody ''Request timeout - the video transcript took too long to fetch''\<rparr>
               else \<lparr>status = 500, body = ErrorBody (''Error fetching transcript: '' @ m)\<rparr>)"
    by (simp add: handler_miss[OF assms(1-4)] assms(5) finish_error catch_fetch_def)
qed

theorem upstream_failure_classified_witness:
  "fst (transcript_handler initial_state
        \<lparr>TIMEOUT = None, arrival = 0, settled = 1,
         upstream = Throws (Error ''socket hang up''), order = FetchFirst\<rparr>
        (Str ''abc12345678'')) =
       \<lparr>status = 500, body = ErrorBody ''Error fetching transcript: socket hang up''\<rparr>
  \<and> fst (transcript_handler initial_state
        \<lparr>TIMEOUT = None, arrival = 0, settled = 1,
         upstream = Returns (Some []), order = FetchFirst\<rparr>
        (Str ''abc12345678'')) =
       \<lparr>status = 500, body = ErrorBody ''Error fetching transcript: No transcript available for this video''\<rparr>"
proof -
  have 1: "''abc12345678'' \<noteq> []" by simp
  have 2: "length ''abc12345678'' \<le> 200" by simp
  have 4: "fst (cache_get (cache initial_state) (arrival w) ''abc12345678'') = None" for w :: world
    by (simp add: initial_state_def cache_get_def)
  have 5: "order \<lparr>TIMEOUT = None, arrival = 0, settled = 1,
         upstream = u, order = FetchFirst\<rparr> = FetchFirst" for u by simp
  show ?thesis
    using upstream_failure_classified[OF 1 2 extract_abc 4 5, of "Throws (Error ''socket hang up'')"]
          upstream_failure_classified[OF 1 2 extract_abc 4 5, of "Returns (Some [])"]
    by simp
qed

section \<open>The deadline\<close>

lemma begin_miss:
  assumes "videoUrl \<noteq> []" "length videoUrl \<le> 200" "extractVideoId videoUrl = Inr k"
    and "fst (cache_get (cache st) now k) = None"
  shows "transcript_begin st T now (Str videoUrl) =
           (Inr \<lparr>p_videoUrl = videoUrl, p_videoId = k, p_timer = timeout_ms T\<rparr>,
            st\<lparr>cache := snd (cache_get (cache st) now k),
               upstream_calls := upstream_calls st @ [k]\<rparr>)"
  using assms
  by (cases "cache_get (cache st) now k") (simp add: transcript_begin_def start_fetch_def)


text \<open>
  The request on the clock is the request of \<open>transcript_handler\<close> in the world whose
  order and settle time the clock gives.
\<close>

lemma timed_is_handler:
  "fst (fst (transcript_timed st T now q reply fetch_delay)) =
     fst (transcript_handler st
            \<lparr>TIMEOUT = T, arrival = now,
             settled = now + race_elapsed (timeout_ms T) fetch_delay,
             upstream = reply, order = race_winner (timeout_ms T) fetch_delay\<rparr> q)
   \<and> snd (transcript_timed st T now q reply fetch_delay) =
     snd (transcript_handler st
            \<lparr>TIMEOUT = T, arrival = now,
             settled = now + race_elapsed (timeout_ms T) fetch_delay,
             upstream = reply, order = race_winner (timeout_ms T) fetch_delay\<rparr> q)"
proof -
  obtain x st' where b: "transcript_begin st T now q = (x, st')"
    by (cases "transcript_begin st T now q")
  show ?thesis
  proof (cases x)
    case (Inl res)
    then show ?thesis using b by (simp add: transcript_timed_def transcript_handler_def)
  next
    case (Inr p)
    then have "q = Str (p_videoUrl p)" "p_timer p = timeout_ms T"
      using b by (auto simp: transcript_begin_def Let_def split: query_value.splits if_splits
          sum.splits prod.splits option.splits)
    then show ?thesis using b Inr
      by (simp add: transcript_timed_def transcript_handler_def split: prod.splits)
  qed
qed



section \<open>No cache write on error\<close>

lemma finish_cases:
  "(\<exists>r. ord = FetchFirst \<and> fetchTranscript reply (p_videoUrl p) = Inr r \<and>
        transcript_finish st now p reply ord =
          (\<lparr>status = 200, body = TranscriptBody r False\<rparr>,
           st\<lparr>cache := cache_put (cache st) now (p_videoId p) r (stdTTL * 1000)\<rparr>))
   \<or> (status (fst (transcript_finish st now p reply ord)) \<in> {500, 504} \<and>
       snd (transcript_finish st now p reply ord) = st)"
proof (cases ord)
  case FetchFirst
  then show ?thesis
    by (cases "fetchTranscript reply (p_videoUrl p)")
       (simp_all add: transcript_finish_def Promise_race_def)
next
  case TimerFirst
  then show ?thesis by (simp add: finish_timer)
qed

lemma start_fetch_cache: "cache (start_fetch st url) = cache st"
  by (simp add: start_fetch_def split: sum.splits)

lemma begin_entries:
  "entries (cache (snd (transcript_begin st T now q))) = entries (cache st)"
proof (cases q)
  case (Str videoUrl)
  show ?thesis
  proof (cases "extractVideoId videoUrl")
    case (Inl e)
    then show ?thesis using Str by (simp add: transcript_begin_def)
  next
    case (Inr vid)
    obtain r c' where g: "cache_get (cache st) now vid = (r, c')" by (cases "cache_get (cache st) now vid")
    then have "entries c' = entries (cache st)" using cache_get_entries[of "cache st" now vid] by simp
    then show ?thesis using Str Inr g
      by (cases r) (simp_all add: transcript_begin_def start_fetch_cache)
  qed
qed (simp_all add: transcript_begin_def)

text \<open>
  Claim C9. From the point where the race has settled, a request that does not end with
  status 200 leaves the whole state of the server as it was; over the whole request, an
  erroring request leaves the entries of the cache as they were (the lookup before the
  race counts a miss and writes nothing). The only change that the continuation makes to
  the state is the store of a result that the fetch delivered when it settled first.
  From the start of the fetch to an error response, the cache, counters included, stays
  as it was.
\<close>

theorem error_leaves_cache_unwritten:
  "(status (fst (transcript_finish st now p reply ord)) \<noteq> 200 \<longrightarrow>
      snd (transcript_finish st now p reply ord) = st)
   \<and> (status (fst (transcript_handler st w q)) \<noteq> 200 \<longrightarrow>
      entries (cache (snd (transcript_handler st w q))) = entries (cache st))
   \<and> (snd (transcript_finish st now p reply ord) \<noteq> st \<longrightarrow>
      (\<exists>r. ord = FetchFirst \<and> fetchTranscript reply (p_videoUrl p) = Inr r \<and>
           snd (transcript_finish st now p reply ord) =
             st\<lparr>cache := cache_put (cache st) now (p_videoId p) r (stdTTL * 1000)\<rparr>))
   \<and> (status (fst (transcript_finish (start_fetch st u) now p reply ord)) \<noteq> 200 \<longrightarrow>
      cache (snd (transcript_finish (start_fetch st u) now p reply ord)) = cache st)"
proof (intro conjI impI)
  assume "status (fst (transcript_finish st now p reply ord)) \<noteq> 200"
  then show "snd (transcript_finish st now p reply ord) = st"
    using finish_cases[of ord reply p st now] by auto
next
  assume "status (fst (transcript_finish (start_fetch st u) now p reply ord)) \<noteq> 200"
  then have "snd (transcript_finish (start_fetch st u) now p reply ord) = start_fetch st u"
    using finish_cases[of ord reply p "start_fetch st u" now] by auto
  then show "cache (snd (transcript_finish (start_fetch st u) now p reply ord)) = cache st"
    by (simp add: start_fetch_cache)
next
  assume a: "status (fst (transcript_handler st w q)) \<noteq> 200"
  obtain x st' where b: "transcript_begin st (TIMEOUT w) (arrival w) q = (x, st')"
    by (cases "transcript_begin st (TIMEOUT w) (arrival w) q")
  then have e: "entries (cache st') = entries (cache st)"
    using begin_entries[of st "TIMEOUT w" "arrival w" q] by simp
  show "entries (cache (snd (transcript_handler st w q))) = entries (cache st)"
  proof (cases x)
    case (Inl res)
    then show ?thesis using b e by (simp add: transcript_handler_def)
  next
    case (Inr pd)
    then have h: "transcript_handler st w q = transcript_finish st' (settled w) pd (upstream w) (order w)"
      using b by (simp add: transcript_handler_def)
    with a have "snd (transcript_finish st' (settled w) pd (upstream w) (order w)) = st'"
      using finish_cases[of "order w" "upstream w" pd st' "settled w"] by auto
    with h e show ?thesis by simp
  qed
next
  assume "snd (transcript_finish st now p reply ord) \<noteq> st"
  then show "\<exists>r. ord = FetchFirst \<and> fetchTranscript reply (p_videoUrl p) = Inr r \<and>
           snd (transcript_finish st now p reply ord) =
             st\<lparr>cache := cache_put (cache st) now (p_videoId p) r (stdTTL * 1000)\<rparr>"
    using finish_cases[of ord reply p st now] by auto
qed

theorem error_leaves_cache_unwritten_witness:
  "snd (transcript_finish initial_state 5
          \<lparr>p_videoUrl = ''abc12345678'', p_videoId = ''abc12345678'', p_timer = 30000\<rparr>
          (Throws (Error ''socket hang up'')) FetchFirst) = initial_state
   \<and> entries (cache (snd (transcript_handler initial_state
        \<lparr>TIMEOUT = None, arrival = 0, settled = 30000,
         upstream = Returns None, order = TimerFirst\<rparr>
        (Str ''abc12345678'')))) = []"
proof -
  have a: "status (fst (transcript_finish initial_state 5
          \<lparr>p_videoUrl = ''abc12345678'', p_videoId = ''abc12345678'', p_timer = 30000\<rparr>
          (Throws (Error ''socket hang up'')) FetchFirst)) \<noteq> 200"
    by (simp add: transcript_finish_def Promise_race_def fetchTranscript_def try_fetch_def
        extract_abc catch_fetch_def)
  have b: "status (fst (transcript_handler initial_state
        \<lparr>TIMEOUT = None, arrival = 0, settled = 30000,
         upstream = Returns None, order = TimerFirst\<rparr>
        (Str ''abc12345678''))) \<noteq> 200"
    by (simp add: transcript_handler_def transcript_begin_def extract_abc
        initial_state_def cache_get_def start_fetch_def finish_timer)
  have c: "entries (cache initial_state) = []" by (simp add: initial_state_def)
  show ?thesis
    using a b c error_leaves_cache_unwritten[where st = initial_state and now = 5
          and p = "\<lparr>p_videoUrl = ''abc12345678'', p_videoId = ''abc12345678'', p_timer = 30000\<rparr>"
          and reply = "Throws (Error ''socket hang up'')" and ord = FetchFirst
          and w = "\<lparr>TIMEOUT = None, arrival = 0, settled = 30000,
         upstream = Returns None, order = TimerFirst\<rparr>" and q = "Str ''abc12345678''"
          and u = "''abc12345678''"]
    by simp
qed

section \<open>The title of a result\<close>

lemma fetchTranscript_title:
  "fetchTranscript reply videoUrl = Inr r \<Longrightarrow>
   \<exists>vid. extractVideoId videoUrl = Inr vid \<and> title r = ''Video '' @ vid \<and> videoId r = vid"
  by (auto simp: fetchTranscript_def try_fetch_def
      split: sum.splits upstream_reply.splits option.splits list.splits)

lemma titled_put: "titled c \<Longrightarrow> title r = ''Video '' @ k \<Longrightarrow> titled (cache_put c now k r ttl)"
  by (auto simp: titled_def cache_put_def update_conv')

lemma titled_get: "titled c \<Longrightarrow> titled (snd (cache_get c now k))"
  by (auto simp: titled_def cache_get_def split: option.splits)

lemma titled_get_Some:
  "titled c \<Longrightarrow> fst (cache_get c now k) = Some r \<Longrightarrow> title r = ''Video '' @ k"
  by (auto simp: titled_def cache_get_def split: option.splits if_splits)

lemma titled_del: "titled c \<Longrightarrow> titled (snd (cache_del c k))"
  by (auto simp: titled_def cache_del_def cache_invalidate_def delete_conv' split: if_splits)

lemma titled_clear: "titled (cache_clear c)"
  by (simp add: titled_def cache_clear_def)

lemma begin_titled:
  assumes "titled (cache st)"
  shows "titled (cache (snd (transcript_begin st T now q)))
       \<and> (\<forall>res. fst (transcript_begin st T now q) = Inl res \<longrightarrow> status res = 200 \<longrightarrow>
            (\<exists>r url k. body res = TranscriptBody r True \<and> q = Str url \<and> extractVideoId url = Inr k
                \<and> title r = ''Video '' @ k))
       \<and> (\<forall>p. fst (transcript_begin st T now q) = Inr p \<longrightarrow>
            q = Str (p_videoUrl p) \<and> extractVideoId (p_videoUrl p) = Inr (p_videoId p))"
proof (cases q)
  case (Str videoUrl)
  show ?thesis
  proof (cases "extractVideoId videoUrl")
    case (Inl e)
    then show ?thesis using Str assms by (simp add: transcript_begin_def)
  next
    case (Inr vid)
    obtain r c' where g: "cache_get (cache st) now vid = (r, c')" by (cases "cache_get (cache st) now vid")
    have t: "titled c'" using titled_get[OF assms, of now vid] g by simp
    show ?thesis
    proof (cases r)
      case None
      then show ?thesis using Str Inr g t assms
        by (simp add: transcript_begin_def start_fetch_cache)
    next
      case (Some cachedResult)
      then have "title cachedResult = ''Video '' @ vid"
        using titled_get_Some[OF assms, of now vid cachedResult] g by simp
      then show ?thesis using Str Inr g t Some assms
        by (simp add: transcript_begin_def)
    qed
  qed
qed (use assms in \<open>simp_all add: transcript_begin_def\<close>)

lemma handler_titled:
  assumes "titled (cache st)"
  shows "titled (cache (snd (transcript_handler st w q)))
       \<and> (status (fst (transcript_handler st w q)) = 200 \<longrightarrow>
            (\<exists>r cached url k. body (fst (transcript_handler st w q)) = TranscriptBody r cached
                \<and> q = Str url \<and> extractVideoId url = Inr k \<and> title r = ''Video '' @ k))"
proof -
  obtain x st' where b: "transcript_begin st (TIMEOUT w) (arrival w) q = (x, st')"
    by (cases "transcript_begin st (TIMEOUT w) (arrival w) q")
  note bt = begin_titled[OF assms, of "TIMEOUT w" "arrival w" q, unfolded b, simplified]
  show ?thesis
  proof (cases x)
    case (Inl res)
    then show ?thesis using b bt by (auto simp: transcript_handler_def)
  next
    case (Inr p)
    then have h: "transcript_handler st w q = transcript_finish st' (settled w) p (upstream w) (order w)"
      using b by (simp add: transcript_handler_def)
    from Inr bt have q: "q = Str (p_videoUrl p)" "extractVideoId (p_videoUrl p) = Inr (p_videoId p)"
      and t': "titled (cache st')" by auto
    from finish_cases[of "order w" "upstream w" p st' "settled w"]
    show ?thesis
    proof (elim disjE exE conjE)
      fix r
      assume f: "fetchTranscript (upstream w) (p_videoUrl p) = Inr r"
        and e: "transcript_finish st' (settled w) p (upstream w) (order w) =
          (\<lparr>status = 200, body = TranscriptBody r False\<rparr>,
           st'\<lparr>cache := cache_put (cache st') (settled w) (p_videoId p) r (stdTTL * 1000)\<rparr>)"
      from fetchTranscript_title[OF f] q have ti: "title r = ''Video '' @ p_videoId p" by auto
      then have "titled (cache_put (cache st') (settled w) (p_videoId p) r (stdTTL * 1000))"
        using t' by (simp add: titled_put)
      then show ?thesis using h e q ti by auto
    next
      assume "status (fst (transcript_finish st' (settled w) p (upstream w) (order w))) \<in> {500, 504}"
        and "snd (transcript_finish st' (settled w) p (upstream w) (order w)) = st'"
      then show ?thesis using h t' by auto
    qed
  qed
qed

lemma app_titled: "titled (cache st) \<Longrightarrow> titled (cache (snd (app st P w req)))"
proof -
  assume t: "titled (cache st)"
  obtain a wins' where ad: "admit (limiter st) (ip req) (arrival w) = (a, wins')"
    by (cases "admit (limiter st) (ip req) (arrival w)")
  have t': "titled (cache (st\<lparr>limiter := wins'\<rparr>))" using t by simp
  show ?thesis
  proof (cases a)
    case False
    then show ?thesis using ad t by (simp add: app_def)
  next
    case True
    have "titled (cache (snd (dispatch (st\<lparr>limiter := wins'\<rparr>) P w (route req))))"
    proof (cases "route req")
      case (GetTranscript q)
      then show ?thesis using handler_titled[OF t', of w q] by (simp add: dispatch_def)
    next
      case (DeleteCacheKey vid)
      then show ?thesis using titled_del[OF t, of vid]
        by (cases "cache_del (cache st) vid") (simp add: dispatch_def cache_delete_handler_def)
    qed (use t in \<open>simp_all add: dispatch_def health_handler_def cache_stats_handler_def
           cache_flush_handler_def not_found_handler_def titled_clear\<close>)
    then show ?thesis using ad True by (simp add: app_def)
  qed
qed

lemma reachable_titled: "reachable P st \<Longrightarrow> titled (cache st)"
proof (induction rule: reachable.induct)
  case reachable_initial
  show ?case by (simp add: titled_def initial_state_def)
next
  case (reachable_app st w req)
  then show ?case by (simp add: app_titled)
qed

text \<open>
  Claim C10. In every state that the server can reach, a request to \<open>GET /transcript\<close>
  that is answered with status 200 carries a result whose title is \<open>Video \<close> followed by
  the key that the locator normalizes to, whether the result was fetched or came from the
  cache. The reply of the upstream library holds segments only, so no other title exists
  to be used.
\<close>

theorem title_is_video_key:
  assumes "reachable P st" and "status (fst (transcript_handler st w q)) = 200"
  shows "\<exists>r cached url k. body (fst (transcript_handler st w q)) = TranscriptBody r cached
           \<and> q = Str url \<and> extractVideoId url = Inr k \<and> title r = ''Video '' @ k"
  using handler_titled[OF reachable_titled[OF assms(1)], of w q] assms(2) by blast

theorem title_is_video_key_witness:
  "reachable False initial_state
   \<and> (\<exists>r cached. body (fst (transcript_handler initial_state
        \<lparr>TIMEOUT = None, arrival = 0, settled = 800,
         upstream = Returns (Some [\<lparr>offset = 1500, utext = ''hello'', duration = 2500, lang = Some ''en''\<rparr>]),
         order = FetchFirst\<rparr>
        (Str ''abc12345678''))) = TranscriptBody r cached \<and> title r = ''Video abc12345678'')"
proof -
  have s: "status (fst (transcript_handler initial_state
        \<lparr>TIMEOUT = None, arrival = 0, settled = 800,
         upstream = Returns (Some [\<lparr>offset = 1500, utext = ''hello'', duration = 2500, lang = Some ''en''\<rparr>]),
         order = FetchFirst\<rparr>
        (Str ''abc12345678''))) = 200"
    by (simp add: transcript_handler_def transcript_begin_def extract_abc
        initial_state_def cache_get_def start_fetch_def transcript_finish_def Promise_race_def
        fetchTranscript_def try_fetch_def)
  show ?thesis
    using title_is_video_key[OF reachable_initial[of False] s] extract_abc reachable_initial[of False]
    by auto
qed

section \<open>Deleting one cache entry\<close>

text \<open>
  Claim C8. \<open>DELETE /cache/:videoId\<close> answers with status 200; \<open>success\<close> is true
  exactly when the cache held an entry under the key as supplied; and the entries under
  every other key stay as they were, the key that the supplied string would normalize to
  included. The handler is the source's; the invalidation of the cache is modelled from
  the spec.
\<close>

theorem delete_uses_exact_key:
  "status (fst (cache_delete_handler st vid)) = 200
   \<and> body (fst (cache_delete_handler st vid)) =
       SuccessBody (map_of (entries (cache st)) vid \<noteq> None)
         (if map_of (entries (cache st)) vid \<noteq> None then ''Cache cleared'' else ''Video not found in cache'')
   \<and> map_of (entries (cache (snd (cache_delete_handler st vid)))) =
       (map_of (entries (cache st)))(vid := None)"
  by (simp add: cache_delete_handler_def cache_del_def cache_invalidate_def delete_conv')

theorem delete_uses_exact_key_witness:
  "body (fst (cache_delete_handler
       (initial_state\<lparr>cache := cache_put (cache initial_state) 0 ''abc12345678'' example_result 3600000\<rparr>)
       ''abc12345678'')) = SuccessBody True ''Cache cleared''
   \<and> body (fst (cache_delete_handler
       (initial_state\<lparr>cache := cache_put (cache initial_state) 0 ''abc12345678'' example_result 3600000\<rparr>)
       ''https://youtu.be/abc12345678'')) = SuccessBody False ''Video not found in cache''"
  using delete_uses_exact_key[of "initial_state\<lparr>cache := cache_put (cache initial_state) 0
            ''abc12345678'' example_result 3600000\<rparr>" "''abc12345678''"]
     delete_uses_exact_key[of "initial_state\<lparr>cache := cache_put (cache initial_state) 0
            ''abc12345678'' example_result 3600000\<rparr>" "''https://youtu.be/abc12345678''"]
  by (simp add: initial_state_def cache_put_def)

section \<open>The cache round trip\<close>

lemma cache_put_get:
  "fst (cache_get (cache_put c t0 k r ttl) now k) = (if now < t0 + ttl then Some r else None)"
  by (simp add: cache_get_def cache_put_def update_conv')

lemma cache_get_fresh:
  "fst (cache_get c now k) = Some r \<Longrightarrow>
   \<exists>e. map_of (entries c) k = Some e \<and> stored e = r \<and> now < expiresAt e"
  by (auto simp: cache_get_def split: option.splits if_splits)

lemma begin_after_store:
  assumes "videoUrl \<noteq> []" "length videoUrl \<le> 200" "extractVideoId videoUrl = Inr k"
  shows "fst (transcript_begin (st\<lparr>cache := cache_put (cache st) t0 k r (stdTTL * 1000)\<rparr>) T now (Str videoUrl)) =
           (if now < t0 + 3600000 then Inl \<lparr>status = 200, body = TranscriptBody r True\<rparr>
            else Inr \<lparr>p_videoUrl = videoUrl, p_videoId = k, p_timer = timeout_ms T\<rparr>)"
proof -
  let ?c = "cache_put (cache st) t0 k r (stdTTL * 1000)"
  obtain x c' where g: "cache_get ?c now k = (x, c')" by (cases "cache_get ?c now k")
  then have "x = (if now < t0 + 3600000 then Some r else None)"
    using cache_put_get[of "cache st" t0 k r "stdTTL * 1000" now] by (simp add: stdTTL_def)
  then show ?thesis using assms g
    by (simp add: transcript_begin_def)
qed

text \<open>
  Claim C2. After \<open>put(k, r, ttl)\<close> at time \<open>t0\<close>, \<open>get(k)\<close> at a time before
  \<open>t0 + ttl\<close> returns \<open>r\<close> and at \<open>t0 + ttl\<close> or later returns a miss; whatever
  \<open>get\<close> returns is the stored result of an entry that has not expired. In the
  handler, where the store uses the default of 3600 seconds: a request for the key that
  arrives less than 3600000 milliseconds after the store is answered from the cache with
  the stored result, and a later one goes on to the fetch. The cache is modelled from the
  spec.
\<close>

theorem cache_round_trip:
  "fst (cache_get (cache_put c t0 k r ttl) now k) = (if now < t0 + ttl then Some r else None)
   \<and> (\<forall>r'. fst (cache_get c now k) = Some r' \<longrightarrow>
        (\<exists>e. map_of (entries c) k = Some e \<and> stored e = r' \<and> now < expiresAt e))
   \<and> (videoUrl \<noteq> [] \<and> length videoUrl \<le> 200 \<and> extractVideoId videoUrl = Inr k \<longrightarrow>
        fst (transcript_begin (st\<lparr>cache := cache_put (cache st) t0 k r (stdTTL * 1000)\<rparr>) T now (Str videoUrl)) =
           (if now < t0 + 3600000 then Inl \<lparr>status = 200, body = TranscriptBody r True\<rparr>
            else Inr \<lparr>p_videoUrl = videoUrl, p_videoId = k, p_timer = timeout_ms T\<rparr>))"
  using cache_put_get cache_get_fresh begin_after_store by blast

theorem cache_round_trip_witness:
  "fst (cache_get (cache_put (cache initial_state) 100 ''abc12345678'' example_result 3600000)
         3600099 ''abc12345678'') = Some example_result
   \<and> fst (cache_get (cache_put (cache initial_state) 100 ''abc12345678'' example_result 3600000)
         3600100 ''abc12345678'') = None
   \<and> fst (transcript_begin
        (initial_state\<lparr>cache := cache_put (cache initial_state) 100 ''abc12345678'' example_result
                                  (stdTTL * 1000)\<rparr>)
        None 3600099 (Str ''https://youtu.be/abc12345678'')) =
       Inl \<lparr>status = 200, body = TranscriptBody example_result True\<rparr>"
  using cache_round_trip[where c = "cache initial_state" and ?t0.0 = 100 and k = "''abc12345678''"
          and r = example_result and ttl = 3600000 and now = 3600099
          and videoUrl = "''https://youtu.be/abc12345678''" and st = initial_state and T = None]
        cache_round_trip[where c = "cache initial_state" and ?t0.0 = 100 and k = "''abc12345678''"
          and r = example_result and ttl = 3600000 and now = 3600100
          and videoUrl = "''https://youtu.be/abc12345678''" and st = initial_state and T = None]
        extract_short
  by simp

section \<open>The rate limit\<close>

lemma admit_fresh:
  "wins addr = None \<Longrightarrow>
   admit wins addr now = (True, wins(addr \<mapsto> \<lparr>windowStart = now, count = 1\<rparr>))"
  by (simp add: admit_def current_window_def max_requests_def)

lemma admit_elapsed:
  "wins addr = Some w0 \<Longrightarrow> windowStart w0 + windowMs \<le> now \<Longrightarrow>
   admit wins addr now = (True, wins(addr \<mapsto> \<lparr>windowStart = now, count = 1\<rparr>))"
  by (simp add: admit_def current_window_def max_requests_def)

lemma admit_in_window:
  "wins addr = Some \<lparr>windowStart = t0, count = n\<rparr> \<Longrightarrow> now < t0 + windowMs \<Longrightarrow>
   admit wins addr now =
     (n < 30, wins(addr \<mapsto> \<lparr>windowStart = t0, count = (if n < 30 then n + 1 else 31)\<rparr>))"
  by (simp add: admit_def current_window_def max_requests_def)

lemma finish_limiter: "limiter (snd (transcript_finish st now p reply ord)) = limiter st"
  using finish_cases[of ord reply p st now] by auto

lemma finish_status: "status (fst (transcript_finish st now p reply ord)) \<in> {200, 500, 504}"
  using finish_cases[of ord reply p st now] by auto

lemma begin_limiter: "limiter (snd (transcript_begin st T now q)) = limiter st"
proof (cases q)
  case (Str videoUrl)
  show ?thesis
  proof (cases "extractVideoId videoUrl")
    case (Inl e)
    then show ?thesis using Str by (simp add: transcript_begin_def)
  next
    case (Inr vid)
    then show ?thesis using Str
      by (cases "cache_get (cache st) now vid"; cases "fst (cache_get (cache st) now vid)")
         (simp_all add: transcript_begin_def start_fetch_def)
  qed
qed (simp_all add: transcript_begin_def)

lemma begin_status:
  "fst (transcript_begin st T now q) = Inl res \<Longrightarrow> status res \<in> {200, 400}"
proof (cases q)
  case (Str videoUrl)
  assume a: "fst (transcript_begin st T now q) = Inl res"
  show ?thesis
  proof (cases "extractVideoId videoUrl")
    case (Inl e)
    then show ?thesis using Str a by (auto simp: transcript_begin_def split: if_splits)
  next
    case (Inr vid)
    then show ?thesis using Str a
      by (cases "cache_get (cache st) now vid"; cases "fst (cache_get (cache st) now vid)")
         (auto simp: transcript_begin_def split: if_splits)
  qed
qed (auto simp: transcript_begin_def)

lemma handler_limiter: "limiter (snd (transcript_handler st w q)) = limiter st"
proof -
  obtain x st' where b: "transcript_begin st (TIMEOUT w) (arrival w) q = (x, st')"
    by (cases "transcript_begin st (TIMEOUT w) (arrival w) q")
  then have "limiter st' = limiter st"
    using begin_limiter[of st "TIMEOUT w" "arrival w" q] by simp
  then show ?thesis using b
    by (cases x) (simp_all add: transcript_handler_def finish_limiter)
qed

lemma handler_status: "status (fst (transcript_handler st w q)) \<in> {200, 400, 500, 504}"
proof -
  obtain x st' where b: "transcript_begin st (TIMEOUT w) (arrival w) q = (x, st')"
    by (cases "transcript_begin st (TIMEOUT w) (arrival w) q")
  show ?thesis
  proof (cases x)
    case (Inl res)
    then show ?thesis using b begin_status[of st "TIMEOUT w" "arrival w" q res]
      by (auto simp: transcript_handler_def)
  next
    case (Inr p)
    then show ?thesis using b finish_status[of st' "settled w" p "upstream w" "order w"]
      by (auto simp: transcript_handler_def)
  qed
qed

lemma dispatch_limiter: "limiter (snd (dispatch st P w r)) = limiter st"
  by (cases r)
     (simp_all add: dispatch_def health_handler_def cache_stats_handler_def cache_flush_handler_def
        not_found_handler_def handler_limiter cache_delete_handler_def split: prod.splits)

lemma dispatch_status: "status (fst (dispatch st P w r)) \<noteq> 429"
proof (cases r)
  case (GetTranscript q)
  then show ?thesis using handler_status[of st w q] by (auto simp: dispatch_def)
qed (simp_all add: dispatch_def health_handler_def cache_stats_handler_def cache_flush_handler_def
        not_found_handler_def cache_delete_handler_def split: prod.splits)

lemma app_rejected:
  "\<not> fst (admit (limiter st) (ip req) (arrival w)) \<Longrightarrow>
   app st P w req =
     (\<lparr>status = 429, body = TextBody limit_message\<rparr>,
      st\<lparr>limiter := snd (admit (limiter st) (ip req) (arrival w))\<rparr>)"
  by (cases "admit (limiter st) (ip req) (arrival w)") (simp add: app_def)

lemma app_admitted:
  "fst (admit (limiter st) (ip req) (arrival w)) \<Longrightarrow>
   app st P w req =
     dispatch (st\<lparr>limiter := snd (admit (limiter st) (ip req) (arrival w))\<rparr>) P w (route req)"
  by (cases "admit (limiter st) (ip req) (arrival w)") (simp add: app_def)

lemma app_limiter:
  "limiter (snd (app st P w req)) = snd (admit (limiter st) (ip req) (arrival w))"
  by (cases "fst (admit (limiter st) (ip req) (arrival w))")
     (simp_all add: app_rejected app_admitted dispatch_limiter)

lemma app_status:
  "status (fst (app st P w req)) = 429 \<longleftrightarrow> \<not> fst (admit (limiter st) (ip req) (arrival w))"
  by (cases "fst (admit (limiter st) (ip req) (arrival w))")
     (simp_all add: app_rejected app_admitted dispatch_status)

lemma serve_Cons:
  "serve st P ((w, req) # rest) =
     (fst (app st P w req) # fst (serve (snd (app st P w req)) P rest),
      snd (serve (snd (app st P w req)) P rest))"
  by (simp split: prod.splits)

lemma serve_in_window:
  assumes "limiter st addr = Some \<lparr>windowStart = t0, count = n\<rparr>"
    and "\<forall>(w, r) \<in> set reqs. ip r = addr \<and> arrival w < t0 + windowMs"
  shows "length (fst (serve st P reqs)) = length reqs
       \<and> (\<forall>i < length reqs.
            (n + i < 30 \<longrightarrow> status (fst (serve st P reqs) ! i) \<noteq> 429)
          \<and> (30 \<le> n + i \<longrightarrow>
               fst (serve st P reqs) ! i = \<lparr>status = 429, body = TextBody limit_message\<rparr>))
       \<and> (\<exists>m. limiter (snd (serve st P reqs)) addr = Some \<lparr>windowStart = t0, count = m\<rparr>)"
  using assms
proof (induction reqs arbitrary: st n)
  case Nil
  then show ?case by simp
next
  case (Cons x reqs)
  obtain w req where x: "x = (w, req)" by (cases x)
  let ?st' = "snd (app st P w req)"
  let ?n' = "if n < 30 then n + 1 else 31"
  have ip: "ip req = addr" and ar: "arrival w < t0 + windowMs"
    using Cons.prems(2) x by auto
  have ad: "admit (limiter st) (ip req) (arrival w) =
      (n < 30, (limiter st)(addr \<mapsto> \<lparr>windowStart = t0, count = ?n'\<rparr>))"
    using admit_in_window[of "limiter st" addr t0 n "arrival w"] Cons.prems(1) ar ip by simp
  have l': "limiter ?st' addr = Some \<lparr>windowStart = t0, count = ?n'\<rparr>"
    by (simp add: app_limiter ad)
  have rest: "\<forall>(w, r) \<in> set reqs. ip r = addr \<and> arrival w < t0 + windowMs"
    using Cons.prems(2) by simp
  note IH = Cons.IH[OF l' rest]
  have hd1: "n < 30 \<Longrightarrow> status (fst (app st P w req)) \<noteq> 429"
    by (simp add: app_status ad)
  have hd2: "30 \<le> n \<Longrightarrow> fst (app st P w req) = \<lparr>status = 429, body = TextBody limit_message\<rparr>"
    by (simp add: app_rejected ad)
  have sv: "fst (serve st P (x # reqs)) = fst (app st P w req) # fst (serve ?st' P reqs)"
    and sv2: "snd (serve st P (x # reqs)) = snd (serve ?st' P reqs)"
    by (simp_all add: x serve_Cons del: serve.simps)
  have nth: "\<forall>i < length (x # reqs).
            (n + i < 30 \<longrightarrow> status (fst (serve st P (x # reqs)) ! i) \<noteq> 429)
          \<and> (30 \<le> n + i \<longrightarrow>
               fst (serve st P (x # reqs)) ! i = \<lparr>status = 429, body = TextBody limit_message\<rparr>)"
  proof (intro allI impI)
    fix i assume i: "i < length (x # reqs)"
    show "(n + i < 30 \<longrightarrow> status (fst (serve st P (x # reqs)) ! i) \<noteq> 429)
          \<and> (30 \<le> n + i \<longrightarrow>
               fst (serve st P (x # reqs)) ! i = \<lparr>status = 429, body = TextBody limit_message\<rparr>)"
    proof (cases i)
      case 0
      then show ?thesis using hd1 hd2 by (simp add: sv del: serve.simps)
    next
      case (Suc j)
      then have j: "j < length reqs" using i by simp
      from IH j have a: "?n' + j < 30 \<longrightarrow> status (fst (serve ?st' P reqs) ! j) \<noteq> 429"
        and b: "30 \<le> ?n' + j \<longrightarrow>
           fst (serve ?st' P reqs) ! j = \<lparr>status = 429, body = TextBody limit_message\<rparr>"
        by blast+
      have c: "n + Suc j < 30 \<Longrightarrow> ?n' + j < 30" and d: "30 \<le> n + Suc j \<Longrightarrow> 30 \<le> ?n' + j"
        by auto
      show ?thesis unfolding Suc sv nth_Cons_Suc using a b c d by blast
    qed
  qed
  have "length (fst (serve st P (x # reqs))) = length (x # reqs)"
    using IH by (simp add: sv del: serve.simps)
  moreover have "\<exists>m. limiter (snd (serve st P (x # reqs))) addr = Some \<lparr>windowStart = t0, count = m\<rparr>"
    using IH by (simp add: sv2 del: serve.simps)
  ultimately show ?case using nth by blast
qed

text \<open>
  Claim C5. A client that the limiter has not seen sends 31 requests, to any routes, all
  before 60000 milliseconds have passed since the first: the first 30 are not answered
  with 429, and the 31st is answered with status 429 and the fixed message. A request of
  the same client at 60000 milliseconds after the first or later is not answered with
  429, and the window of the client then starts at that request with a count of 1. On
  every route, a request that the limiter rejects gets the 429 response and changes
  nothing but the limiter. The limiter is modelled from the spec, with the window, the
  limit and the message that the source configures.
\<close>

theorem rate_limit_window:
  assumes "limiter st addr = None"
    and "length reqs = 30"
    and "ip r0 = addr"
    and "\<forall>(w, r) \<in> set reqs. ip r = addr \<and> arrival w < arrival w0 + windowMs"
    and "ip r' = addr" and "arrival w0 + windowMs \<le> arrival w'"
  shows "(\<forall>i < 30. status (fst (serve st P ((w0, r0) # reqs)) ! i) \<noteq> 429)
       \<and> fst (serve st P ((w0, r0) # reqs)) ! 30 = \<lparr>status = 429, body = TextBody limit_message\<rparr>
       \<and> status (fst (app (snd (serve st P ((w0, r0) # reqs))) P w' r')) \<noteq> 429
       \<and> limiter (snd (app (snd (serve st P ((w0, r0) # reqs))) P w' r')) addr =
           Some \<lparr>windowStart = arrival w', count = 1\<rparr>
       \<and> (\<forall>s w req. \<not> fst (admit (limiter s) (ip req) (arrival w)) \<longrightarrow>
            app s P w req =
              (\<lparr>status = 429, body = TextBody limit_message\<rparr>,
               s\<lparr>limiter := snd (admit (limiter s) (ip req) (arrival w))\<rparr>))"
proof -
  let ?st1 = "snd (app st P w0 r0)"
  have ad: "admit (limiter st) (ip r0) (arrival w0) =
      (True, (limiter st)(addr \<mapsto> \<lparr>windowStart = arrival w0, count = 1\<rparr>))"
    using admit_fresh[of "limiter st" addr "arrival w0"] assms(1,3) by simp
  have l1: "limiter ?st1 addr = Some \<lparr>windowStart = arrival w0, count = 1\<rparr>"
    by (simp add: app_limiter ad)
  have first: "status (fst (app st P w0 r0)) \<noteq> 429"
    by (simp add: app_status ad)
  note sw = serve_in_window[OF l1 assms(4), of P]
  have sv: "fst (serve st P ((w0, r0) # reqs)) = fst (app st P w0 r0) # fst (serve ?st1 P reqs)"
    and sv2: "snd (serve st P ((w0, r0) # reqs)) = snd (serve ?st1 P reqs)"
    by (simp_all add: serve_Cons del: serve.simps)
  have a: "\<forall>i < 30. status (fst (serve st P ((w0, r0) # reqs)) ! i) \<noteq> 429"
  proof (intro allI impI)
    fix i :: nat assume i: "i < 30"
    show "status (fst (serve st P ((w0, r0) # reqs)) ! i) \<noteq> 429"
    proof (cases i)
      case 0
      then show ?thesis using first by (simp add: sv del: serve.simps)
    next
      case (Suc j)
      then have "j < length reqs" "1 + j < 30" using i assms(2) by auto
      then have "status (fst (serve ?st1 P reqs) ! j) \<noteq> 429" using sw by blast
      then show ?thesis by (simp add: sv Suc del: serve.simps)
    qed
  qed
  have "29 < length reqs" "30 \<le> 1 + (29::nat)" using assms(2) by auto
  then have "fst (serve ?st1 P reqs) ! 29 = \<lparr>status = 429, body = TextBody limit_message\<rparr>"
    using sw by blast
  then have b: "fst (serve st P ((w0, r0) # reqs)) ! 30 = \<lparr>status = 429, body = TextBody limit_message\<rparr>"
    by (simp add: sv del: serve.simps)
  let ?st2 = "snd (serve st P ((w0, r0) # reqs))"
  from sw obtain m where m: "limiter ?st2 addr = Some \<lparr>windowStart = arrival w0, count = m\<rparr>"
    unfolding sv2 by blast
  have ad2: "admit (limiter ?st2) (ip r') (arrival w') =
      (True, (limiter ?st2)(addr \<mapsto> \<lparr>windowStart = arrival w', count = 1\<rparr>))"
    using admit_elapsed[of "limiter ?st2" addr _ "arrival w'"] m assms(5,6)
    by (simp del: serve.simps)
  have c: "status (fst (app ?st2 P w' r')) \<noteq> 429"
    by (simp add: app_status ad2 del: serve.simps)
  have d: "limiter (snd (app ?st2 P w' r')) addr = Some \<lparr>windowStart = arrival w', count = 1\<rparr>"
    by (simp add: app_limiter ad2 del: serve.simps)
  have e: "\<forall>s w req. \<not> fst (admit (limiter s) (ip req) (arrival w)) \<longrightarrow>
            app s P w req =
              (\<lparr>status = 429, body = TextBody limit_message\<rparr>,
               s\<lparr>limiter := snd (admit (limiter s) (ip req) (arrival w))\<rparr>)"
    by (simp add: app_rejected)
  show ?thesis using a b c d e by blast
qed

theorem rate_limit_window_witness:
  "fst (serve initial_state False
         ((example_world, \<lparr>ip = ''10.0.0.7'', route = GetHealth\<rparr>)
          # replicate 30 (example_world\<lparr>arrival := 59999\<rparr>, \<lparr>ip = ''10.0.0.7'', route = GetCacheStats\<rparr>))) ! 30 =
     \<lparr>status = 429, body = TextBody limit_message\<rparr>
   \<and> status (fst (serve initial_state False
         ((example_world, \<lparr>ip = ''10.0.0.7'', route = GetHealth\<rparr>)
          # replicate 30 (example_world\<lparr>arrival := 59999\<rparr>, \<lparr>ip = ''10.0.0.7'', route = GetCacheStats\<rparr>))) ! 29) \<noteq> 429
   \<and> status (fst (app (snd (serve initial_state False
         ((example_world, \<lparr>ip = ''10.0.0.7'', route = GetHealth\<rparr>)
          # replicate 30 (example_world\<lparr>arrival := 59999\<rparr>, \<lparr>ip = ''10.0.0.7'', route = GetCacheStats\<rparr>))))
        False (example_world\<lparr>arrival := 60000\<rparr>) \<lparr>ip = ''10.0.0.7'', route = Unmatched\<rparr>)) \<noteq> 429"
proof -
  have 1: "limiter initial_state ''10.0.0.7'' = None" by (simp add: initial_state_def)
  have 2: "length (replicate 30 (example_world\<lparr>arrival := 59999\<rparr>, \<lparr>ip = ''10.0.0.7'', route = GetCacheStats\<rparr>)) = 30"
    by simp
  have 3: "ip \<lparr>ip = ''10.0.0.7'', route = GetHealth\<rparr> = ''10.0.0.7''" by simp
  have 4: "\<forall>(w, r) \<in> set (replicate 30 (example_world\<lparr>arrival := 59999\<rparr>, \<lparr>ip = ''10.0.0.7'', route = GetCacheStats\<rparr>)).
             ip r = ''10.0.0.7'' \<and> arrival w < arrival example_world + windowMs"
    by (simp add: example_world_def windowMs_def)
  have 5: "ip \<lparr>ip = ''10.0.0.7'', route = Unmatched\<rparr> = ''10.0.0.7''" by simp
  have 6: "arrival example_world + windowMs \<le> arrival (example_world\<lparr>arrival := 60000\<rparr>)"
    by (simp add: example_world_def windowMs_def)
  have 7: "(29::nat) < 30" by simp
  show ?thesis
    using rate_limit_window[OF 1 2 3 4 5 6, of False] 7 by blast
qed

section \<open>Concurrent cache misses\<close>

lemma cache_get_fst_entries:
  "entries c' = entries c \<Longrightarrow> fst (cache_get c' now k) = fst (cache_get c now k)"
  by (simp add: cache_get_def split: option.splits)

lemma begin_hit:
  assumes "videoUrl \<noteq> []" "length videoUrl \<le> 200" "extractVideoId videoUrl = Inr k"
    and "fst (cache_get (cache st) now k) = Some r"
  shows "transcript_begin st T now (Str videoUrl) =
           (Inl \<lparr>status = 200, body = TranscriptBody r True\<rparr>,
            st\<lparr>cache := snd (cache_get (cache st) now k)\<rparr>)"
  using assms
  by (cases "cache_get (cache st) now k") (simp add: transcript_begin_def)

text \<open>
  Two requests for the same key, the second arriving while the first waits for its
  fetch: both miss the cache, and \<open>getYoutubeTranscript\<close> is invoked twice.
\<close>

theorem concurrent_misses_counterexample:
  "upstream_calls
     (snd (transcript_begin
        (snd (transcript_begin initial_state None 0 (Str ''https://youtu.be/abc12345678'')))
        None 1 (Str ''abc12345678''))) = [''abc12345678'', ''abc12345678'']"
  by (simp add: transcript_begin_def extract_short extract_abc initial_state_def cache_get_def
      start_fetch_def)

text \<open>
  Claim C4, as amended. The handler does not coalesce fetches. Two requests for the same
  uncached key that both look the cache up before either has stored a result invoke the
  upstream fetch once each, twice in all. When the second request arrives after the first
  has stored its result, and less than 3600000 milliseconds after that store, the
  upstream fetch is invoked once in all and the second request is answered from the
  cache.
\<close>

theorem upstream_fetches_per_miss:
  assumes "u1 \<noteq> []" "length u1 \<le> 200" "extractVideoId u1 = Inr k"
    and "u2 \<noteq> []" "length u2 \<le> 200" "extractVideoId u2 = Inr k"
    and "fst (cache_get (cache st) (arrival w1) k) = None"
  shows "(fst (cache_get (cache st) (arrival w2) k) = None \<longrightarrow>
           upstream_calls
             (snd (transcript_begin (snd (transcript_begin st (TIMEOUT w1) (arrival w1) (Str u1)))
                (TIMEOUT w2) (arrival w2) (Str u2))) = upstream_calls st @ [k, k])
       \<and> (order w1 = FetchFirst \<and> fetchTranscript (upstream w1) u1 = Inr r
            \<and> arrival w2 < settled w1 + 3600000 \<longrightarrow>
           upstream_calls
             (snd (transcript_handler (snd (transcript_handler st w1 (Str u1))) w2 (Str u2))) =
             upstream_calls st @ [k]
           \<and> fst (transcript_handler (snd (transcript_handler st w1 (Str u1))) w2 (Str u2)) =
               \<lparr>status = 200, body = TranscriptBody r True\<rparr>)"
proof (intro conjI impI)
  let ?s1 = "st\<lparr>cache := snd (cache_get (cache st) (arrival w1) k),
               upstream_calls := upstream_calls st @ [k]\<rparr>"
  have b1: "transcript_begin st (TIMEOUT w1) (arrival w1) (Str u1) =
      (Inr \<lparr>p_videoUrl = u1, p_videoId = k, p_timer = timeout_ms (TIMEOUT w1)\<rparr>, ?s1)"
    by (rule begin_miss[OF assms(1-3,7)])
  {
    assume m2: "fst (cache_get (cache st) (arrival w2) k) = None"
    have "fst (cache_get (cache ?s1) (arrival w2) k) = None"
      using m2 cache_get_fst_entries[of "cache ?s1" "cache st" "arrival w2" k]
      by (simp add: cache_get_entries)
    from begin_miss[OF assms(4-6) this, of "TIMEOUT w2"]
    show "upstream_calls
             (snd (transcript_begin (snd (transcript_begin st (TIMEOUT w1) (arrival w1) (Str u1)))
                (TIMEOUT w2) (arrival w2) (Str u2))) = upstream_calls st @ [k, k]"
      by (simp add: b1)
  }
  assume a: "order w1 = FetchFirst \<and> fetchTranscript (upstream w1) u1 = Inr r
            \<and> arrival w2 < settled w1 + 3600000"
  let ?s2 = "?s1\<lparr>cache := cache_put (cache ?s1) (settled w1) k r (stdTTL * 1000)\<rparr>"
  have h1: "transcript_handler st w1 (Str u1) = (\<lparr>status = 200, body = TranscriptBody r False\<rparr>, ?s2)"
    using a by (simp add: transcript_handler_def b1 transcript_finish_def Promise_race_def)
  have "fst (cache_get (cache ?s2) (arrival w2) k) = Some r"
    using a cache_put_get[of "cache ?s1" "settled w1" k r "stdTTL * 1000" "arrival w2"]
    by (simp add: stdTTL_def)
  from begin_hit[OF assms(4-6) this, of "TIMEOUT w2"]
  have h2: "transcript_handler ?s2 w2 (Str u2) =
      (\<lparr>status = 200, body = TranscriptBody r True\<rparr>,
       ?s2\<lparr>cache := snd (cache_get (cache ?s2) (arrival w2) k)\<rparr>)"
    by (simp add: transcript_handler_def)
  show "upstream_calls
             (snd (transcript_handler (snd (transcript_handler st w1 (Str u1))) w2 (Str u2))) =
             upstream_calls st @ [k]"
    unfolding h1 snd_conv h2 by simp
  show "fst (transcript_handler (snd (transcript_handler st w1 (Str u1))) w2 (Str u2)) =
               \<lparr>status = 200, body = TranscriptBody r True\<rparr>"
    unfolding h1 snd_conv h2 by simp
qed

theorem upstream_fetches_per_miss_witness:
  "upstream_calls
     (snd (transcript_handler
        (snd (transcript_handler initial_state example_world (Str ''https://youtu.be/abc12345678'')))
        (example_world\<lparr>arrival := 900\<rparr>) (Str ''abc12345678''))) = [''abc12345678'']
   \<and> upstream_calls
     (snd (transcript_begin
        (snd (transcript_begin initial_state None 0 (Str ''https://youtu.be/abc12345678'')))
        None 900 (Str ''abc12345678''))) = [''abc12345678'', ''abc12345678'']"
proof -
  have 1: "''https://youtu.be/abc12345678'' \<noteq> []" "length ''https://youtu.be/abc12345678'' \<le> 200"
    by simp_all
  have 2: "''abc12345678'' \<noteq> []" "length ''abc12345678'' \<le> 200" by simp_all
  have 3: "fst (cache_get (cache initial_state) t ''abc12345678'') = None" for t
    by (simp add: initial_state_def cache_get_def)
  obtain r where r: "fetchTranscript (upstream example_world) ''https://youtu.be/abc12345678'' = Inr r"
    by (simp add: fetchTranscript_def try_fetch_def extract_short example_world_def)
  have 4: "order example_world = FetchFirst \<and>
      fetchTranscript (upstream example_world) ''https://youtu.be/abc12345678'' = Inr r \<and>
      arrival (example_world\<lparr>arrival := 900\<rparr>) < settled example_world + 3600000"
    using r by (simp add: example_world_def)
  have 5: "TIMEOUT example_world = None" "arrival example_world = 0"
    "upstream_calls initial_state = []"
    by (simp_all add: example_world_def initial_state_def)
  show ?thesis
    using upstream_fetches_per_miss[where ?u1.0 = "''https://youtu.be/abc12345678''"
        and ?u2.0 = "''abc12345678''" and k = "''abc12345678''" and st = initial_state
        and ?w1.0 = example_world and ?w2.0 = "example_world\<lparr>arrival := 900\<rparr>" and r = r,
        OF 1 extract_short 2 extract_abc 3] 3 4 5
    by simp
qed

end
